theory Spec2Isabelle
  imports Main "HOL-Library.AList"
begin

section \<open>JavaScript values as the startup script sees them\<close>

text \<open>
  The script \<^verbatim>\<open>startup-config.js\<close> works on the value that \<^verbatim>\<open>JSON.parse\<close> returns
  and mutates it in place. A value is \<^verbatim>\<open>null\<close>, a boolean, a number, a string, an array
  or a plain object. A number is an integer or, for a literal too large for a double such
  as \<^verbatim>\<open>1e999\<close>, one of the two infinities (\<open>JInf\<close>). An array is an object too:
  assigning a named property to it succeeds in memory, and \<^verbatim>\<open>JSON.stringify\<close> later writes its elements only. So an array carries
  its elements and its named properties. An object is an association list in insertion
  order. \<^verbatim>\<open>undefined\<close> is never stored; it is the \<open>None\<close> of a property read.

  Numbers are integers here: the script only asks whether a number is zero, and it computes
  with the context window, which \<^verbatim>\<open>parseInt\<close> makes integral. A property read is
  the read of an own property; which names that covers is made precise by
  \<open>ordinaryName\<close> below.
\<close>

datatype json =
    JNull
  | JBool bool
  | JNum int
  | JStr string
  | JArr "json list" "(string \<times> json) list"
  | JObj "(string \<times> json) list"
  | JInf bool

datatype error = TypeError

text \<open>Truthiness of a value read from a property (\<open>None\<close> is \<^verbatim>\<open>undefined\<close>).\<close>

fun truthy :: "json option \<Rightarrow> bool" where
  "truthy None = False"
| "truthy (Some JNull) = False"
| "truthy (Some (JBool b)) = b"
| "truthy (Some (JNum n)) = (n \<noteq> 0)"
| "truthy (Some (JStr s)) = (s \<noteq> [])"
| "truthy (Some (JArr es ps)) = True"
| "truthy (Some (JObj kvs)) = True"
| "truthy (Some (JInf b)) = True"

text \<open>\<^verbatim>\<open>typeof v === 'object'\<close>: true of \<^verbatim>\<open>null\<close>, arrays and plain objects.\<close>

fun typeofObject :: "json option \<Rightarrow> bool" where
  "typeofObject (Some JNull) = True"
| "typeofObject (Some (JArr es ps)) = True"
| "typeofObject (Some (JObj kvs)) = True"
| "typeofObject _ = False"

text \<open>\<^verbatim>\<open>v && typeof v === 'object' && !Array.isArray(v)\<close>, the test on a source value.\<close>

fun isMapping :: "json \<Rightarrow> bool" where
  "isMapping (JObj kvs) = True"
| "isMapping _ = False"

text \<open>
  \<^verbatim>\<open>base[k]\<close>: a read on \<^verbatim>\<open>undefined\<close> or \<^verbatim>\<open>null\<close> throws a TypeError. Otherwise
  \<open>getProp\<close> gives the own property of that name, which is what the read finds unless the
  name is one that the base inherits (\<^verbatim>\<open>toString\<close>, \<^verbatim>\<open>constructor\<close>, ...) or an
  index or \<^verbatim>\<open>length\<close>: see \<open>ordinaryName\<close>. On a primitive no ordinary name is found.
\<close>

fun getProp :: "json option \<Rightarrow> string \<Rightarrow> error + json option" where
  "getProp None k = Inl TypeError"
| "getProp (Some JNull) k = Inl TypeError"
| "getProp (Some (JObj kvs)) k = Inr (map_of kvs k)"
| "getProp (Some (JArr es ps)) k = Inr (map_of ps k)"
| "getProp (Some v) k = Inr None"

text \<open>
  \<^verbatim>\<open>base[k] = v\<close>, returning the base afterwards. The script is not in strict mode, so
  an assignment to a property of a primitive is silently dropped. An existing key keeps its
  place, a new key goes last.
\<close>

fun setProp :: "json option \<Rightarrow> string \<Rightarrow> json \<Rightarrow> error + json option" where
  "setProp None k v = Inl TypeError"
| "setProp (Some JNull) k v = Inl TypeError"
| "setProp (Some (JObj kvs)) k v = Inr (Some (JObj (AList.update k v kvs)))"
| "setProp (Some (JArr es ps)) k v = Inr (Some (JArr es (AList.update k v ps)))"
| "setProp (Some p) k v = Inr (Some p)"

text \<open>
  The script mutates a nested object through a reference. The model computes the new
  child and puts it back under the key it was read from; on a primitive parent nothing was
  read and nothing is put back.
\<close>

fun writeBack :: "json option \<Rightarrow> string \<Rightarrow> json option \<Rightarrow> json option" where
  "writeBack (Some (JObj kvs)) k (Some c) = Some (JObj (AList.update k c kvs))"
| "writeBack (Some (JArr es ps)) k (Some c) = Some (JArr es (AList.update k c ps))"
| "writeBack t k c = t"

section \<open>The merge engine\<close>

text \<open>\<^verbatim>\<open>deepMerge(target, source)\<close>; the source is given by its entries, in key order.\<close>

fun deepMerge :: "json option \<Rightarrow> (string \<times> json) list \<Rightarrow> error + json option" where
  "deepMerge target [] = Inr target"
| "deepMerge target ((key, JObj src) # rest) =
     (case getProp target key of
        Inl e \<Rightarrow> Inl e
      | Inr cur \<Rightarrow>
         (case (if \<not> truthy cur \<or> \<not> typeofObject cur
                then setProp target key (JObj []) else Inr target) of
            Inl e \<Rightarrow> Inl e
          | Inr target1 \<Rightarrow>
             (case getProp target1 key of
                Inl e \<Rightarrow> Inl e
              | Inr child \<Rightarrow>
                 (case deepMerge child src of
                    Inl e \<Rightarrow> Inl e
                  | Inr child' \<Rightarrow> deepMerge (writeBack target1 key child') rest))))"
| "deepMerge target ((key, sv) # rest) =
     (case getProp target key of
        Inl e \<Rightarrow> Inl e
      | Inr cur \<Rightarrow>
         (if cur = None
          then (case setProp target key sv of
                  Inl e \<Rightarrow> Inl e
                | Inr target1 \<Rightarrow> deepMerge target1 rest)
          else deepMerge target rest))"

text \<open>\<^verbatim>\<open>forceMerge(target, source)\<close>.\<close>

fun forceMerge :: "json option \<Rightarrow> (string \<times> json) list \<Rightarrow> error + json option" where
  "forceMerge target [] = Inr target"
| "forceMerge target ((key, JObj src) # rest) =
     (case getProp target key of
        Inl e \<Rightarrow> Inl e
      | Inr cur \<Rightarrow>
         (case (if \<not> truthy cur \<or> \<not> typeofObject cur
                then setProp target key (JObj []) else Inr target) of
            Inl e \<Rightarrow> Inl e
          | Inr target1 \<Rightarrow>
             (case getProp target1 key of
                Inl e \<Rightarrow> Inl e
              | Inr child \<Rightarrow>
                 (case forceMerge child src of
                    Inl e \<Rightarrow> Inl e
                  | Inr child' \<Rightarrow> forceMerge (writeBack target1 key child') rest))))"
| "forceMerge target ((key, sv) # rest) =
     (case setProp target key sv of
        Inl e \<Rightarrow> Inl e
      | Inr target1 \<Rightarrow> forceMerge target1 rest)"

section \<open>The startup run\<close>

text \<open>
  The environment of a run. \<open>contextWindowEnv\<close> is what
  \<^verbatim>\<open>parseInt(process.env.OLLAMA_CONTEXT_WINDOW)\<close> returned: \<open>None\<close> is \<^verbatim>\<open>NaN\<close>, the
  result for an unset or non-numeric variable.
\<close>

record env =
  ollamaUrl :: "string option"
  ollamaKey :: "string option"
  ollamaModel :: "string option"
  contextWindowEnv :: "int option"

text \<open>Truthiness of an environment variable: set and not the empty string.\<close>

fun truthyStr :: "string option \<Rightarrow> bool" where
  "truthyStr None = False"
| "truthyStr (Some s) = (s \<noteq> [])"

text \<open>The string of a truthy environment variable (\<open>[]\<close> is never used for a falsy one).\<close>

fun strOf :: "string option \<Rightarrow> string" where
  "strOf None = []"
| "strOf (Some s) = s"

definition gatewayDefaults :: "(string \<times> json) list" where
  "gatewayDefaults =
     [(''gateway'', JObj
        [(''mode'', JStr ''local''),
         (''bind'', JStr ''lan''),
         (''controlUi'', JObj [(''allowInsecureAuth'', JBool True)]),
         (''auth'', JObj [(''mode'', JStr ''token'')])])]"

definition agentDefaults :: "(string \<times> json) list" where
  "agentDefaults =
     [(''agents'', JObj
        [(''defaults'', JObj
           [(''tools'', JObj
              [(''profile'', JStr ''standard''),
               (''allow'', JArr [JStr ''read'', JStr ''write'', JStr ''edit'',
                                 JStr ''exec'', JStr ''web'', JStr ''browser''] []),
               (''exec'', JObj
                  [(''host'', JStr ''gateway''),
                   (''ask'', JStr ''off''),
                   (''security'', JStr ''standard'')])])])])]"

text \<open>\<^verbatim>\<open>parseInt(...) || 32768\<close>: \<^verbatim>\<open>NaN\<close> and \<open>0\<close> are falsy.\<close>

definition contextWindow :: "env \<Rightarrow> int" where
  "contextWindow e =
     (case contextWindowEnv e of
        None \<Rightarrow> 32768
      | Some n \<Rightarrow> if n \<noteq> 0 then n else 32768)"

text \<open>Sequencing of steps that may throw.\<close>

definition andThen :: "error + 'a \<Rightarrow> ('a \<Rightarrow> error + 'b) \<Rightarrow> error + 'b" where
  "andThen r f = (case r of Inl e \<Rightarrow> Inl e | Inr x \<Rightarrow> f x)"

text \<open>\<^verbatim>\<open>if (!base[k]) base[k] = {}\<close>.\<close>

definition ensureProp :: "json option \<Rightarrow> string \<Rightarrow> error + json option" where
  "ensureProp base k =
     andThen (getProp base k)
       (\<lambda>cur. if \<not> truthy cur then setProp base k (JObj []) else Inr base)"

text \<open>Decimal index names, for the own properties of an array or a string.\<close>

fun showNat :: "nat \<Rightarrow> string" where
  "showNat n =
     (if n < 10 then [char_of (48 + n)]
      else showNat (n div 10) @ [char_of (48 + n mod 10)])"

declare showNat.simps [simp del]

definition indexed :: "json list \<Rightarrow> (string \<times> json) list" where
  "indexed xs = zip (map showNat [0..<length xs]) xs"

text \<open>
  The own enumerable properties that an object spread \<^verbatim>\<open>...(v || {})\<close> copies: those of
  an object; the elements and named properties of an array; the characters of a string;
  none for any other value. An object made from the spread of an array or a string has index
  names as keys; JavaScript lists such keys before all others, the model lists them where
  they were inserted. Strings are taken to be ASCII, one character per code unit.
\<close>

fun spreadProps :: "json option \<Rightarrow> (string \<times> json) list" where
  "spreadProps (Some (JObj kvs)) = kvs"
| "spreadProps (Some (JArr es ps)) = indexed es @ ps"
| "spreadProps (Some (JStr s)) = indexed (map (\<lambda>c. JStr [c]) s)"
| "spreadProps _ = []"

text \<open>An object literal: later entries overwrite earlier ones with the same key.\<close>

definition objectLiteral :: "(string \<times> json) list \<Rightarrow> (string \<times> json) list" where
  "objectLiteral kvs = fold (\<lambda>(k, v). AList.update k v) kvs []"

text \<open>Lines 136 to 142: the provider entry, the existing entry spread last.\<close>

definition ollamaEntry :: "env \<Rightarrow> json option \<Rightarrow> json" where
  "ollamaEntry e existing =
     JObj (objectLiteral
       ([(''baseUrl'', JStr (strOf (ollamaUrl e))),
         (''apiKey'', JStr (strOf (ollamaKey e))),
         (''api'', JStr ''openai-completions''),
         (''authHeader'', JBool False)]
        @ spreadProps existing))"

text \<open>Lines 153 to 161: the model definition that is appended.\<close>

definition newModelEntry :: "env \<Rightarrow> json" where
  "newModelEntry e =
     JObj
       [(''id'', JStr (strOf (ollamaModel e))),
        (''name'', JStr (''Ollama - '' @ strOf (ollamaModel e))),
        (''reasoning'', JBool False),
        (''input'', JArr [JStr ''text''] []),
        (''cost'', JObj [(''input'', JNum 0), (''output'', JNum 0)]),
        (''contextWindow'', JNum (contextWindow e)),
        (''maxTokens'', JNum (min 8192 (contextWindow e div 4)))]"

text \<open>
  \<^verbatim>\<open>existingModels.some(m => m.id === id)\<close>: stops at the first match; reading
  \<^verbatim>\<open>id\<close> of a \<^verbatim>\<open>null\<close> element throws.
\<close>

fun someId :: "string \<Rightarrow> json list \<Rightarrow> error + bool" where
  "someId i [] = Inr False"
| "someId i (m # ms) =
     (case getProp (Some m) ''id'' of
        Inl e \<Rightarrow> Inl e
      | Inr v \<Rightarrow> if v = Some (JStr i) then Inr True else someId i ms)"

text \<open>
  The elements \<^verbatim>\<open>.some\<close> runs over. A truthy value that is not an array has no
  callable \<^verbatim>\<open>some\<close>, so the call throws.
\<close>

fun elementsOf :: "json option \<Rightarrow> error + json list" where
  "elementsOf (Some (JArr es ps)) = Inr es"
| "elementsOf _ = Inl TypeError"

text \<open>Lines 147 to 163, on the provider entry just stored.\<close>

definition addModel :: "env \<Rightarrow> json option \<Rightarrow> error + json option" where
  "addModel e ollama =
     andThen (getProp ollama ''models'') (\<lambda>mv.
     andThen (elementsOf (if truthy mv then mv else Some (JArr [] []))) (\<lambda>existingModels.
     andThen (someId (strOf (ollamaModel e)) existingModels) (\<lambda>modelExists.
       if \<not> modelExists
       then setProp ollama ''models'' (JArr (existingModels @ [newModelEntry e]) [])
       else Inr ollama)))"

text \<open>
  String conversion of a value in a template literal. An object with an own \<^verbatim>\<open>toString\<close>
  (never callable in a parsed document) falls back to \<^verbatim>\<open>valueOf\<close>, which gives no
  primitive: a TypeError. An array is joined, converting every element other than
  \<^verbatim>\<open>null\<close>; with an own \<^verbatim>\<open>join\<close> it is converted as a plain object.
\<close>

fun logged :: "json option \<Rightarrow> json" where
  "logged (Some v) = v"
| "logged None = JNull"

fun toStringThrows :: "json \<Rightarrow> bool" where
  "toStringThrows (JObj kvs) = (''toString'' \<in> fst ` set kvs)"
| "toStringThrows (JArr es ps) =
     (if ''toString'' \<in> fst ` set ps then True
      else if ''join'' \<in> fst ` set ps then False
      else (\<exists>x \<in> set es. x \<noteq> JNull \<and> toStringThrows x))"
| "toStringThrows v = False"

definition newModel :: "env \<Rightarrow> string" where
  "newModel e = ''ollama/'' @ strOf (ollamaModel e)"

text \<open>
  Lines 166 to 181: \<^verbatim>\<open>model?.primary\<close> is \<^verbatim>\<open>undefined\<close> when the model is missing or null.
  After the assignment, lines 176 to 177 print a truthy old selector inside a template
  literal; the conversion can throw, and then nothing is written.
\<close>

definition setDefaultModel :: "env \<Rightarrow> json option \<Rightarrow> error + json option" where
  "setDefaultModel e config =
     andThen (ensureProp config ''agents'') (\<lambda>config1.
     andThen (getProp config1 ''agents'') (\<lambda>agents.
     andThen (ensureProp agents ''defaults'') (\<lambda>agents1.
     andThen (getProp agents1 ''defaults'') (\<lambda>defaults.
     andThen (getProp defaults ''model'') (\<lambda>m.
     andThen (if m = None \<or> m = Some JNull then Inr None else getProp m ''primary'')
       (\<lambda>currentModel.
     andThen (if currentModel \<noteq> Some (JStr (newModel e))
              then andThen (setProp defaults ''model'' (JObj [(''primary'', JStr (newModel e))]))
                     (\<lambda>defaults1.
                        if truthy currentModel \<and> toStringThrows (logged currentModel)
                        then Inl TypeError else Inr defaults1)
              else Inr defaults) (\<lambda>defaults1.
     Inr (writeBack config1 ''agents'' (writeBack agents1 ''defaults'' defaults1)))))))))"

text \<open>Lines 131 to 182: the branch taken when both the URL and the key are truthy.\<close>

definition provision :: "env \<Rightarrow> json option \<Rightarrow> error + json option" where
  "provision e config =
     andThen (ensureProp config ''models'') (\<lambda>config1.
     andThen (getProp config1 ''models'') (\<lambda>models.
     andThen (ensureProp models ''providers'') (\<lambda>models1.
     andThen (getProp models1 ''providers'') (\<lambda>providers.
     andThen (getProp providers ''ollama'') (\<lambda>existing.
     andThen (setProp providers ''ollama''
                (ollamaEntry e (if truthy existing then existing else Some (JObj []))))
       (\<lambda>providers1.
     if truthyStr (ollamaModel e)
     then
       andThen (getProp providers1 ''ollama'') (\<lambda>ollama.
       andThen (addModel e ollama) (\<lambda>ollama1.
       setDefaultModel e
         (writeBack config1 ''models''
            (writeBack models1 ''providers'' (writeBack providers1 ''ollama'' ollama1)))))
     else
       Inr (writeBack config1 ''models'' (writeBack models1 ''providers'' providers1))))))))"

text \<open>
  Lines 111 to 192 of \<^verbatim>\<open>main\<close>: the value that is handed to \<^verbatim>\<open>JSON.stringify\<close>, or the
  exception. When only one of the two variables is truthy, or none, the script only logs.
\<close>

definition main :: "env \<Rightarrow> json \<Rightarrow> error + json option" where
  "main e config =
     andThen (forceMerge (Some config) gatewayDefaults) (\<lambda>config1.
     andThen (deepMerge config1 agentDefaults) (\<lambda>config2.
     if truthyStr (ollamaUrl e) \<and> truthyStr (ollamaKey e)
     then provision e config2
     else Inr config2))"

text \<open>
  What \<^verbatim>\<open>JSON.stringify\<close> followed by a later \<^verbatim>\<open>JSON.parse\<close> keeps: the named properties
  of arrays are not written, and an infinite number is written as \<^verbatim>\<open>null\<close>.
\<close>

fun stringify :: "json \<Rightarrow> json" where
  "stringify (JArr es ps) = JArr (map stringify es) []"
| "stringify (JObj kvs) = JObj (map (\<lambda>(k, v). (k, stringify v)) kvs)"
| "stringify (JInf b) = JNull"
| "stringify v = v"

text \<open>Lines 66 to 78: no file, or a file that does not parse (\<open>None\<close>), is the empty object.\<close>

fun load :: "json option \<Rightarrow> json" where
  "load None = JObj []"
| "load (Some j) = j"

text \<open>
  A whole run, from the parsed content of the file to the content afterwards. An
  exception is caught at the top level before anything is written: the file stays.
\<close>

definition run :: "env \<Rightarrow> json option \<Rightarrow> json option" where
  "run e file =
     (case main e (load file) of
        Inl err \<Rightarrow> file
      | Inr None \<Rightarrow> file
      | Inr (Some config) \<Rightarrow> Some (stringify config))"

section \<open>Auxiliary notions for the proofs\<close>

text \<open>Reading along a path of property names; any failure on the way is \<open>None\<close>.\<close>

fun lookupPath :: "json option \<Rightarrow> string list \<Rightarrow> json option" where
  "lookupPath v [] = v"
| "lookupPath v (k # ks) = (case getProp v k of Inl e \<Rightarrow> None | Inr c \<Rightarrow> lookupPath c ks)"

text \<open>
  Arrays and plain objects are the values that hold named properties. \<open>propsOf\<close> reads
  them and \<open>withProps\<close> replaces them, leaving the elements of an array alone.
\<close>

fun isContainer :: "json option \<Rightarrow> bool" where
  "isContainer (Some (JObj kvs)) = True"
| "isContainer (Some (JArr es ps)) = True"
| "isContainer _ = False"

fun propsOf :: "json option \<Rightarrow> (string \<times> json) list" where
  "propsOf (Some (JObj kvs)) = kvs"
| "propsOf (Some (JArr es ps)) = ps"
| "propsOf _ = []"

fun withProps :: "json option \<Rightarrow> (string \<times> json) list \<Rightarrow> json option" where
  "withProps (Some (JObj kvs)) ps' = Some (JObj ps')"
| "withProps (Some (JArr es ps)) ps' = Some (JArr es ps')"
| "withProps t ps' = t"

text \<open>The value that \<^verbatim>\<open>if (!base[k]) base[k] = {}\<close> leaves under \<open>k\<close>.\<close>

definition orEmpty :: "json option \<Rightarrow> json option" where
  "orEmpty v = (if truthy v then v else Some (JObj []))"

text \<open>
  Both merges are one traversal with a flag that says whether a scalar or a sequence
  overwrites a value that is already there.
\<close>

fun mergeGen :: "bool \<Rightarrow> json option \<Rightarrow> (string \<times> json) list \<Rightarrow> error + json option" where
  "mergeGen f target [] = Inr target"
| "mergeGen f target ((key, JObj src) # rest) =
     (case getProp target key of
        Inl e \<Rightarrow> Inl e
      | Inr cur \<Rightarrow>
         (case (if \<not> truthy cur \<or> \<not> typeofObject cur
                then setProp target key (JObj []) else Inr target) of
            Inl e \<Rightarrow> Inl e
          | Inr target1 \<Rightarrow>
             (case getProp target1 key of
                Inl e \<Rightarrow> Inl e
              | Inr child \<Rightarrow>
                 (case mergeGen f child src of
                    Inl e \<Rightarrow> Inl e
                  | Inr child' \<Rightarrow> mergeGen f (writeBack target1 key child') rest))))"
| "mergeGen f target ((key, sv) # rest) =
     (case getProp target key of
        Inl e \<Rightarrow> Inl e
      | Inr cur \<Rightarrow>
         (if f \<or> cur = None
          then (case setProp target key sv of
                  Inl e \<Rightarrow> Inl e
                | Inr target1 \<Rightarrow> mergeGen f target1 rest)
          else mergeGen f target rest))"

text \<open>
  On a container, a merge never throws, and each source entry rewrites the property of
  its own key: \<open>newVal\<close> is the value stored under a key, \<open>mergeProps\<close> the resulting
  property list.
\<close>

definition baseOf :: "json option \<Rightarrow> json option" where
  "baseOf cur = (if isContainer cur then cur else Some (JObj []))"

fun valOf :: "error + json option \<Rightarrow> json" where
  "valOf (Inr (Some c)) = c"
| "valOf _ = JNull"

definition newVal :: "bool \<Rightarrow> json option \<Rightarrow> json \<Rightarrow> json" where
  "newVal f cur sv =
     (case sv of
        JObj s \<Rightarrow> valOf (mergeGen f (baseOf cur) s)
      | _ \<Rightarrow> (case cur of None \<Rightarrow> sv | Some c \<Rightarrow> if f then sv else c))"

definition mergeProps :: "bool \<Rightarrow> (string \<times> json) list \<Rightarrow> (string \<times> json) list \<Rightarrow> (string \<times> json) list" where
  "mergeProps f src ps = fold (\<lambda>(k, sv) ps. AList.update k (newVal f (map_of ps k) sv) ps) src ps"

text \<open>A source object is well formed when no object in it repeats a key.\<close>

fun distinctKeys :: "json \<Rightarrow> bool" where
  "distinctKeys (JObj kvs) = (distinct (map fst kvs) \<and> (\<forall>v \<in> snd ` set kvs. distinctKeys v))"
| "distinctKeys v = True"

text \<open>
  A read \<^verbatim>\<open>target[key]\<close> also finds what the target inherits: the members of
  \<^verbatim>\<open>Object.prototype\<close>, for an array those of \<^verbatim>\<open>Array.prototype\<close>, its
  \<^verbatim>\<open>length\<close> and its elements under their indices. \<open>getProp\<close> reads own properties, so
  it is the read of the source for the names below only; every name the script itself reads
  or writes is one of them.
\<close>

definition reservedNames :: "string list" where
  "reservedNames =
     [''__proto__'', ''constructor'', ''toString'', ''toLocaleString'', ''valueOf'',
      ''hasOwnProperty'', ''isPrototypeOf'', ''propertyIsEnumerable'',
      ''__defineGetter__'', ''__defineSetter__'', ''__lookupGetter__'', ''__lookupSetter__'',
      ''length'', ''at'', ''concat'', ''copyWithin'', ''entries'', ''every'', ''fill'',
      ''filter'', ''find'', ''findIndex'', ''findLast'', ''findLastIndex'', ''flat'',
      ''flatMap'', ''forEach'', ''includes'', ''indexOf'', ''join'', ''keys'',
      ''lastIndexOf'', ''map'', ''pop'', ''push'', ''reduce'', ''reduceRight'', ''reverse'',
      ''shift'', ''slice'', ''some'', ''sort'', ''splice'', ''toReversed'', ''toSorted'',
      ''toSpliced'', ''unshift'', ''values'', ''with'']"

definition ordinaryName :: "string \<Rightarrow> bool" where
  "ordinaryName k = (k \<notin> set reservedNames \<and> \<not> (k \<noteq> [] \<and> list_all (\<lambda>c. c \<in> set ''0123456789'') k))"

fun ordinaryKeys :: "json \<Rightarrow> bool" where
  "ordinaryKeys (JObj kvs) = list_all (\<lambda>(k, v). ordinaryName k \<and> ordinaryKeys v) kvs"
| "ordinaryKeys v = True"

text \<open>Concrete runs used below.\<close>

definition envFull :: env where
  "envFull =
     \<lparr>ollamaUrl = Some ''http://172.17.0.1:11434/v1'', ollamaKey = Some ''ollama-local'',
      ollamaModel = Some ''qwen2.5-coder:32b'', contextWindowEnv = None\<rparr>"

definition staleDoc :: json where
  "staleDoc =
     JObj [(''models'', JObj [(''providers'', JObj [(''ollama'',
       JObj [(''api'', JStr ''openai-responses''), (''timeout'', JNum 30)])])])]"


text \<open>The property list of a document after both default merges.\<close>

definition mergedProps :: "json \<Rightarrow> (string \<times> json) list" where
  "mergedProps j = mergeProps False agentDefaults (mergeProps True gatewayDefaults (propsOf (Some j)))"

text \<open>
  The elements of a stored model sequence (none when the value is not an array), and the
  test \<^verbatim>\<open>m.id === id\<close> on one element.
\<close>

fun elems :: "json option \<Rightarrow> json list" where
  "elems (Some (JArr es ps)) = es"
| "elems _ = []"

definition hasId :: "string \<Rightarrow> json \<Rightarrow> bool" where
  "hasId i m = (getProp (Some m) ''id'' = Inr (Some (JStr i)))"

text \<open>Where the provider entry and its model sequence live.\<close>

definition ollamaPath :: "string list" where
  "ollamaPath = [''models'', ''providers'', ''ollama'']"

definition modelsPath :: "string list" where
  "modelsPath = [''models'', ''providers'', ''ollama'', ''models'']"

text \<open>More concrete runs: a document that selects another model, and a zero context window.\<close>

definition envB :: env where
  "envB = \<lparr>ollamaUrl = Some ''http://172.17.0.1:11434/v1'', ollamaKey = Some ''ollama-local'',
            ollamaModel = Some ''modelB'', contextWindowEnv = Some 16384\<rparr>"

definition docA :: json where
  "docA = JObj [(''agents'', JObj [(''defaults'', JObj [(''model'',
       JObj [(''primary'', JStr ''ollama/modelA''), (''fallback'', JStr ''ollama/modelC'')])])])]"

definition envZero :: env where
  "envZero = \<lparr>ollamaUrl = Some ''http://172.17.0.1:11434/v1'', ollamaKey = Some ''ollama-local'',
               ollamaModel = Some ''modelB'', contextWindowEnv = Some 0\<rparr>"


text \<open>
  Writing and reading back. \<open>stringifyProps\<close> is \<open>stringify\<close> on the values of a property
  list. A value is \<open>clean\<close> when writing it and reading it back gives the same value: no
  array in it has named properties and no number in it is infinite. A value that
  \<^verbatim>\<open>JSON.parse\<close> returns is clean unless it holds a number too large for a double.
\<close>

definition stringifyProps :: "(string \<times> json) list \<Rightarrow> (string \<times> json) list" where
  "stringifyProps kvs = map (\<lambda>(k, v). (k, stringify v)) kvs"

definition clean :: "json option \<Rightarrow> bool" where
  "clean v = (case v of None \<Rightarrow> True | Some j \<Rightarrow> stringify j = j)"

text \<open>
  A run rewrites the value stored under a few keys, level by level. \<open>applyVals\<close> rewrites
  the values under the listed keys of one property list, each from the value found there;
  \<open>levelVal\<close> does so inside the value found under a key, after the replacement of a
  missing or unusable value by \<^verbatim>\<open>{}\<close> that \<open>base\<close> describes. \<open>idemAt\<close> says that computing
  a value, writing it, reading it back and computing again writes the same text.
\<close>

definition applyVals ::
  "(string \<times> (json option \<Rightarrow> json)) list \<Rightarrow> (string \<times> json) list \<Rightarrow> (string \<times> json) list" where
  "applyVals vals ps = fold (\<lambda>(k, val) ps. AList.update k (val (map_of ps k)) ps) vals ps"

definition idemAt :: "(json option \<Rightarrow> json) \<Rightarrow> json option \<Rightarrow> bool" where
  "idemAt val cur = (stringify (val (Some (stringify (val cur)))) = stringify (val cur))"

fun orNull :: "json option \<Rightarrow> json" where
  "orNull (Some v) = v"
| "orNull None = JNull"

definition levelVal ::
  "(json option \<Rightarrow> json option) \<Rightarrow> (string \<times> (json option \<Rightarrow> json)) list \<Rightarrow> json option \<Rightarrow> json" where
  "levelVal base vals cur = orNull (withProps (base cur) (applyVals vals (propsOf (base cur))))"

definition srcVals :: "bool \<Rightarrow> (string \<times> json) list \<Rightarrow> (string \<times> (json option \<Rightarrow> json)) list" where
  "srcVals f s = map (\<lambda>(k, sv). (k, \<lambda>cur. newVal f cur sv)) s"

definition goodBase :: "(json option \<Rightarrow> json option) \<Rightarrow> bool" where
  "goodBase base = (\<forall>v. (isContainer v \<longrightarrow> base v = v) \<and> (base v = v \<or> base v = Some (JObj []))
                        \<and> base v \<noteq> None)"

text \<open>The values a run stores: the provider entry, the default selector, and the levels above them.\<close>

definition fixedFields :: "env \<Rightarrow> (string \<times> json) list" where
  "fixedFields e =
     [(''baseUrl'', JStr (strOf (ollamaUrl e))),
      (''apiKey'', JStr (strOf (ollamaKey e))),
      (''api'', JStr ''openai-completions''),
      (''authHeader'', JBool False)]"

definition entryVal :: "env \<Rightarrow> json option \<Rightarrow> json" where
  "entryVal e cur =
     (if truthyStr (ollamaModel e)
      then valOf (addModel e (Some (ollamaEntry e (orEmpty cur))))
      else ollamaEntry e (orEmpty cur))"

definition gatewayDefault :: json where
  "gatewayDefault = orNull (lookupPath (Some (JObj gatewayDefaults)) [''gateway''])"

definition toolsDefault :: json where
  "toolsDefault = orNull (lookupPath (Some (JObj agentDefaults)) [''agents'', ''defaults'', ''tools''])"

definition selectVal :: "env \<Rightarrow> json option \<Rightarrow> json" where
  "selectVal e cur =
     (if lookupPath cur [''primary''] = Some (JStr (newModel e)) then orNull cur
      else JObj [(''primary'', JStr (newModel e))])"

definition defaultsVal :: "env \<Rightarrow> bool \<Rightarrow> json option \<Rightarrow> json" where
  "defaultsVal e sel =
     levelVal baseOf ((''tools'', \<lambda>c. newVal False c toolsDefault)
                      # (if sel then [(''model'', selectVal e)] else []))"

definition agentsVal :: "env \<Rightarrow> bool \<Rightarrow> json option \<Rightarrow> json" where
  "agentsVal e sel = levelVal baseOf [(''defaults'', defaultsVal e sel)]"

definition providersVal :: "env \<Rightarrow> json option \<Rightarrow> json" where
  "providersVal e = levelVal orEmpty [(''ollama'', entryVal e)]"

definition modelsVal :: "env \<Rightarrow> json option \<Rightarrow> json" where
  "modelsVal e = levelVal orEmpty [(''providers'', providersVal e)]"

definition enabled :: "env \<Rightarrow> bool" where
  "enabled e = (truthyStr (ollamaUrl e) \<and> truthyStr (ollamaKey e))"

definition topVals :: "env \<Rightarrow> (string \<times> (json option \<Rightarrow> json)) list" where
  "topVals e =
     [(''gateway'', \<lambda>c. newVal True c gatewayDefault),
      (''agents'', agentsVal e (enabled e \<and> truthyStr (ollamaModel e)))]
     @ (if enabled e then [(''models'', modelsVal e)] else [])"

definition entryOf :: "json \<Rightarrow> json option" where
  "entryOf j = map_of (propsOf (orEmpty (map_of (propsOf (orEmpty
                 (map_of (propsOf (Some j)) ''models''))) ''providers''))) ''ollama''"

text \<open>
  Values other than arrays, and the place of the default selector. Under a key whose value is
  not an array, what a run stores is a plain object, and it is written as such.
\<close>

fun notArray :: "json option \<Rightarrow> bool" where
  "notArray (Some (JArr es ps)) = False"
| "notArray v = True"

definition modelPath :: "string list" where
  "modelPath = [''agents'', ''defaults'', ''model'']"

text \<open>
  A document as \<^verbatim>\<open>JSON.parse\<close> returns it: no array in it has a named property.
\<close>

fun parsed :: "json \<Rightarrow> bool" where
  "parsed (JArr es ps) = (ps = [] \<and> (\<forall>v \<in> set es. parsed v))"
| "parsed (JObj kvs) = (\<forall>v \<in> snd ` set kvs. parsed v)"
| "parsed v = True"

fun finiteNumbers :: "json \<Rightarrow> bool" where
  "finiteNumbers (JInf b) = False"
| "finiteNumbers (JArr es ps) =
     ((\<forall>v \<in> set es. finiteNumbers v) \<and> (\<forall>v \<in> snd ` set ps. finiteNumbers v))"
| "finiteNumbers (JObj kvs) = (\<forall>v \<in> snd ` set kvs. finiteNumbers v)"
| "finiteNumbers v = True"

text \<open>Three documents on which a run does not do what one would expect.\<close>

definition arrayDoc :: json where
  "arrayDoc = JObj [(''agents'', JArr [] [])]"

definition toStringDoc :: json where
  "toStringDoc = JObj [(''agents'', JObj [(''defaults'', JObj [(''model'',
       JObj [(''primary'', JObj [(''toString'', JNum 0)])])])])]"

definition infiniteDoc :: json where
  "infiniteDoc = JObj [(''models'', JObj [(''providers'', JInf True)])]"

definition envNoModel :: env where
  "envNoModel = \<lparr>ollamaUrl = Some ''http://172.17.0.1:11434/v1'', ollamaKey = Some ''ollama-local'',
                ollamaModel = None, contextWindowEnv = None\<rparr>"
section \<open>Basic facts\<close>

lemma andThen_Inl [simp]: "andThen (Inl e) f = Inl e"
  by (simp add: andThen_def)

lemma andThen_Inr [simp]: "andThen (Inr x) f = f x"
  by (simp add: andThen_def)

lemma andThen_eq_Inr: "andThen r f = Inr y \<longleftrightarrow> (\<exists>x. r = Inr x \<and> f x = Inr y)"
  by (cases r) simp_all

lemma isContainer_iff: "isContainer t \<longleftrightarrow> truthy t \<and> typeofObject t"
  by (cases t rule: isContainer.cases) simp_all

lemma getProp_container: "isContainer t \<Longrightarrow> getProp t k = Inr (map_of (propsOf t) k)"
  by (cases t rule: isContainer.cases) simp_all

lemma setProp_container:
  "isContainer t \<Longrightarrow> setProp t k v = Inr (withProps t (AList.update k v (propsOf t)))"
  by (cases t rule: isContainer.cases) simp_all

lemma writeBack_container:
  "isContainer t \<Longrightarrow> writeBack t k (Some c) = withProps t (AList.update k c (propsOf t))"
  by (cases t rule: isContainer.cases) simp_all

lemma isContainer_withProps [simp]: "isContainer (withProps t ps) = isContainer t"
  by (cases t rule: isContainer.cases) simp_all

lemma propsOf_withProps [simp]: "isContainer t \<Longrightarrow> propsOf (withProps t ps) = ps"
  by (cases t rule: isContainer.cases) simp_all

lemma withProps_withProps [simp]: "withProps (withProps t ps) qs = withProps t qs"
  by (cases t rule: isContainer.cases) simp_all

lemma withProps_propsOf [simp]: "withProps t (propsOf t) = t"
  by (cases t rule: isContainer.cases) simp_all

lemma getProp_primitive:
  "\<not> isContainer t \<Longrightarrow> getProp t k = Inr v \<Longrightarrow> v = None \<and> t \<noteq> None \<and> t \<noteq> Some JNull"
  by (cases t rule: truthy.cases) simp_all

lemma setProp_primitive: "\<not> isContainer t \<Longrightarrow> setProp t k v = Inr t' \<Longrightarrow> t' = t"
  by (cases t rule: truthy.cases) simp_all

lemma ensureProp_container:
  "isContainer t \<Longrightarrow> ensureProp t k =
     Inr (if truthy (map_of (propsOf t) k) then t
          else withProps t (AList.update k (JObj []) (propsOf t)))"
  by (simp add: ensureProp_def getProp_container setProp_container)

lemma ensureProp_primitive: "\<not> isContainer t \<Longrightarrow> ensureProp t k = Inr t' \<Longrightarrow> t' = t"
  by (auto simp: ensureProp_def andThen_eq_Inr split: if_splits dest: setProp_primitive)

lemma isContainer_Some: "isContainer t \<Longrightarrow> \<exists>j. t = Some j"
  by (cases t) auto

lemma lookupPath_None [simp]: "lookupPath None ks = None"
  by (cases ks) simp_all

lemma lookupPath_orEmpty [simp]: "lookupPath (orEmpty v) (k # ks) = lookupPath v (k # ks)"
  by (cases v rule: truthy.cases) (simp_all add: orEmpty_def)

lemma optional_chain:
  "(if m = None \<or> m = Some JNull then Inr None else getProp m k) = Inr (lookupPath m [k])"
  by (cases m rule: truthy.cases) simp_all

lemma ensureProp_Inr:
  assumes "ensureProp t k = Inr t'" "getProp t' k = Inr c"
  shows "c = None \<and> \<not> isContainer t \<or>
         isContainer t \<and> isContainer t' \<and> c = orEmpty (map_of (propsOf t) k) \<and>
           (\<forall>x. writeBack t' k (Some x) = writeBack t k (Some x))"
proof (cases "isContainer t")
  case True
  then show ?thesis using assms
    by (auto simp: ensureProp_container orEmpty_def getProp_container writeBack_container
        update_conv' split: if_splits)
next
  case False
  with assms show ?thesis
    using ensureProp_primitive getProp_primitive by blast
qed

lemma getProp_Inr: "getProp t k = Inr v \<Longrightarrow> v = map_of (propsOf t) k"
  by (cases t rule: truthy.cases) auto

lemma setProp_Inr: "setProp t k v = Inr t' \<Longrightarrow> t' = withProps t (AList.update k v (propsOf t))"
  by (cases t rule: truthy.cases) auto

lemma log_line_Inr:
  "(if c then andThen (setProp d k v) (\<lambda>d1. if b then Inl TypeError else Inr d1) else Inr d) = Inr d1
   \<Longrightarrow> (if c then setProp d k v else Inr d) = Inr d1"
  by (auto simp: andThen_eq_Inr split: if_splits)

lemma setDefaultModel_shape:
  assumes "setDefaultModel e config = Inr config'"
  defines "ag \<equiv> orEmpty (map_of (propsOf config) ''agents'')"
  defines "df \<equiv> orEmpty (map_of (propsOf ag) ''defaults'')"
  shows "isContainer config \<and> isContainer ag \<and>
         config' = writeBack config ''agents'' (writeBack ag ''defaults''
           (if lookupPath (map_of (propsOf df) ''model'') [''primary''] \<noteq> Some (JStr (newModel e))
            then withProps df (AList.update ''model'' (JObj [(''primary'', JStr (newModel e))])
                   (propsOf df))
            else df))"
proof -
  from assms(1) obtain c1 a a1 d m d1 where
    c1: "ensureProp config ''agents'' = Inr c1" and a: "getProp c1 ''agents'' = Inr a" and
    a1: "ensureProp a ''defaults'' = Inr a1" and d: "getProp a1 ''defaults'' = Inr d" and
    m: "getProp d ''model'' = Inr m" and
    d1: "(if lookupPath m [''primary''] \<noteq> Some (JStr (newModel e))
          then setProp d ''model'' (JObj [(''primary'', JStr (newModel e))])
          else Inr d) = Inr d1" and
    r: "config' = writeBack c1 ''agents'' (writeBack a1 ''defaults'' d1)"
    unfolding setDefaultModel_def optional_chain
    by (auto simp: andThen_eq_Inr dest!: log_line_Inr)
  from m obtain dj where dj: "d = Some dj" by (cases d) simp_all
  with ensureProp_Inr[OF a1 d] have ca: "isContainer a" and ca1: "isContainer a1"
    and dd: "d = orEmpty (map_of (propsOf a) ''defaults'')"
    and wa: "\<And>x. writeBack a1 ''defaults'' (Some x) = writeBack a ''defaults'' (Some x)"
    by auto
  from ca have an: "a \<noteq> None" using isContainer_Some by blast
  with ensureProp_Inr[OF c1 a] have cc: "isContainer config" and cc1: "isContainer c1"
    and aa: "a = ag"
    and wc: "\<And>x. writeBack c1 ''agents'' (Some x) = writeBack config ''agents'' (Some x)"
    by (auto simp: ag_def)
  from dd aa have ddf: "d = df" by (simp add: df_def)
  from m have mm: "m = map_of (propsOf d) ''model''" by (rule getProp_Inr)
  from d1 have d1': "d1 = (if lookupPath m [''primary''] \<noteq> Some (JStr (newModel e))
          then withProps d (AList.update ''model'' (JObj [(''primary'', JStr (newModel e))]) (propsOf d))
          else d)"
    by (auto dest: setProp_Inr split: if_splits)
  then obtain d1j where d1j: "d1 = Some d1j" using dj
    by (cases dj) (auto split: if_splits)
  have "isContainer (writeBack a ''defaults'' d1)"
    using ca d1j by (simp add: writeBack_container)
  then obtain xj where xj: "writeBack a ''defaults'' d1 = Some xj"
    using isContainer_Some by blast
  have "config' = writeBack config ''agents'' (writeBack a ''defaults'' d1)"
    using r wa wc d1j xj by simp
  with cc ca aa ddf d1' mm show ?thesis by simp
qed

lemma deepMerge_mergeGen: "deepMerge t src = mergeGen False t src"
  by (induction t src rule: deepMerge.induct) (simp_all split: sum.splits)

lemma getProp_then_setProp:
  "(case getProp t k of Inl e \<Rightarrow> Inl e
    | Inr cur \<Rightarrow> (case setProp t k v of Inl e \<Rightarrow> Inl e | Inr t1 \<Rightarrow> g t1))
   = (case setProp t k v of Inl e \<Rightarrow> Inl e | Inr t1 \<Rightarrow> g t1)"
  by (cases t rule: truthy.cases) (simp_all add: error.exhaust)

lemma mergeGen_True_scalar:
  "\<not> isMapping sv \<Longrightarrow> mergeGen True t ((k, sv) # rest) =
     (case setProp t k sv of Inl e \<Rightarrow> Inl e | Inr t1 \<Rightarrow> mergeGen True t1 rest)"
  by (cases sv; cases t rule: truthy.cases) simp_all

lemma forceMerge_mergeGen: "forceMerge t src = mergeGen True t src"
  by (induction t src rule: forceMerge.induct)
    (simp_all add: mergeGen_True_scalar del: mergeGen.simps(3,4,5,6,7,8) split: sum.splits)

lemma isContainer_baseOf [simp]: "isContainer (baseOf cur)"
  by (simp add: baseOf_def)

lemma mergeGen_total: "isContainer t \<Longrightarrow> \<exists>ps. mergeGen f t src = Inr (withProps t ps)"
proof (induction f t src rule: mergeGen.induct)
  case (1 f target)
  then show ?case by (metis mergeGen.simps(1) withProps_propsOf)
next
  case (2 f target key src rest)
  let ?cur = "map_of (propsOf target) key"
  let ?t1 = "if \<not> truthy ?cur \<or> \<not> typeofObject ?cur
             then withProps target (AList.update key (JObj []) (propsOf target)) else target"
  have t1: "(if \<not> truthy ?cur \<or> \<not> typeofObject ?cur
                then setProp target key (JObj []) else Inr target) = Inr ?t1"
    using 2(3) by (simp add: setProp_container)
  have ct1: "isContainer ?t1" using 2(3) by simp
  have ic: "(\<not> truthy ?cur \<or> \<not> typeofObject ?cur) = (\<not> isContainer ?cur)"
    by (simp add: isContainer_iff)
  have g1: "getProp ?t1 key = Inr (baseOf ?cur)"
    using 2(3) unfolding ic by (simp add: getProp_container baseOf_def update_conv')
  have g0: "getProp target key = Inr ?cur"
    using 2(3) by (simp add: getProp_container)
  from 2(1)[OF g0 t1 g1 isContainer_baseOf] obtain ps1 where
    m1: "mergeGen f (baseOf ?cur) src = Inr (withProps (baseOf ?cur) ps1)"
    by auto
  obtain cj where cj: "withProps (baseOf ?cur) ps1 = Some cj"
    using isContainer_Some[of "withProps (baseOf ?cur) ps1"] by auto
  have "isContainer (writeBack ?t1 key (withProps (baseOf ?cur) ps1))"
    using ct1 cj by (simp add: writeBack_container)
  from 2(2)[OF g0 t1 g1 m1 this] obtain ps2 where
    "mergeGen f (writeBack ?t1 key (withProps (baseOf ?cur) ps1)) rest
       = Inr (withProps (writeBack ?t1 key (withProps (baseOf ?cur) ps1)) ps2)"
    by auto
  moreover have "withProps (writeBack ?t1 key (withProps (baseOf ?cur) ps1)) ps2 = withProps target ps2"
    using ct1 cj by (simp add: writeBack_container)
  moreover have "mergeGen f target ((key, JObj src) # rest)
      = mergeGen f (writeBack ?t1 key (withProps (baseOf ?cur) ps1)) rest"
    by (simp only: mergeGen.simps(2) g0 sum.case t1 g1 m1)
  ultimately show ?case by auto
qed (fastforce simp: getProp_container setProp_container)+

lemma mergeGen_scalar:
  "\<not> isMapping sv \<Longrightarrow> mergeGen f t ((k, sv) # rest) =
     (case getProp t k of
        Inl e \<Rightarrow> Inl e
      | Inr cur \<Rightarrow>
         (if f \<or> cur = None
          then (case setProp t k sv of
                  Inl e \<Rightarrow> Inl e
                | Inr target1 \<Rightarrow> mergeGen f target1 rest)
          else mergeGen f t rest))"
  by (cases sv; hypsubst_thin) simp_all

lemma newVal_scalar:
  "\<not> isMapping sv \<Longrightarrow> newVal f cur sv = (case cur of None \<Rightarrow> sv | Some c \<Rightarrow> if f then sv else c)"
  by (cases sv; hypsubst_thin) (simp_all add: newVal_def)

lemma mergeGen_step:
  assumes "isContainer t"
  shows "mergeGen f t ((k, sv) # rest) =
           mergeGen f (withProps t (AList.update k (newVal f (map_of (propsOf t) k) sv) (propsOf t))) rest"
proof (cases "isMapping sv")
  case True
  then obtain s where sv: "sv = JObj s" by (cases sv) auto
  let ?cur = "map_of (propsOf t) k"
  let ?t1 = "if \<not> truthy ?cur \<or> \<not> typeofObject ?cur
             then withProps t (AList.update k (JObj []) (propsOf t)) else t"
  have t1: "(if \<not> truthy ?cur \<or> \<not> typeofObject ?cur
                then setProp t k (JObj []) else Inr t) = Inr ?t1"
    using assms by (simp add: setProp_container)
  have ct1: "isContainer ?t1" using assms by simp
  have ic: "(\<not> truthy ?cur \<or> \<not> typeofObject ?cur) = (\<not> isContainer ?cur)"
    by (simp add: isContainer_iff)
  have g1: "getProp ?t1 k = Inr (baseOf ?cur)"
    using assms unfolding ic by (simp add: getProp_container baseOf_def update_conv')
  have g0: "getProp t k = Inr ?cur"
    using assms by (simp add: getProp_container)
  obtain ps1 where m1: "mergeGen f (baseOf ?cur) s = Inr (withProps (baseOf ?cur) ps1)"
    using mergeGen_total[OF isContainer_baseOf] by blast
  obtain cj where cj: "withProps (baseOf ?cur) ps1 = Some cj"
    using isContainer_Some[of "withProps (baseOf ?cur) ps1"] by auto
  have nv: "newVal f ?cur sv = cj" by (simp add: newVal_def sv m1 cj)
  have "mergeGen f t ((k, JObj s) # rest)
      = mergeGen f (writeBack ?t1 k (withProps (baseOf ?cur) ps1)) rest"
    by (simp only: mergeGen.simps(2) g0 sum.case t1 g1 m1)
  moreover have "writeBack ?t1 k (Some cj) = withProps t (AList.update k cj (propsOf t))"
    using assms by (simp add: writeBack_container)
  ultimately show ?thesis by (simp add: sv[symmetric] nv cj)
next
  case False
  show ?thesis
  proof (cases "f \<or> map_of (propsOf t) k = None")
    case True
    with False assms show ?thesis
      by (auto simp: mergeGen_scalar newVal_scalar getProp_container setProp_container
          split: option.splits)
  next
    case F2: False
    then obtain c where c: "map_of (propsOf t) k = Some c" by auto
    with False F2 assms show ?thesis
      by (simp add: mergeGen_scalar newVal_scalar getProp_container update_triv)
  qed
qed

lemma mergeProps_Nil [simp]: "mergeProps f [] ps = ps"
  by (simp add: mergeProps_def)

lemma mergeProps_Cons [simp]:
  "mergeProps f ((k, sv) # rest) ps
     = mergeProps f rest (AList.update k (newVal f (map_of ps k) sv) ps)"
  by (simp add: mergeProps_def)

lemma mergeGen_fold:
  "isContainer t \<Longrightarrow> mergeGen f t src = Inr (withProps t (mergeProps f src (propsOf t)))"
proof (induction src arbitrary: t)
  case Nil
  then show ?case by simp
next
  case (Cons x rest)
  obtain k sv where x: "x = (k, sv)" by (cases x)
  show ?case
    using Cons.prems Cons.IH[of "withProps t (AList.update k (newVal f (map_of (propsOf t) k) sv) (propsOf t))"]
    by (simp add: x mergeGen_step)
qed

lemma newVal_mapping:
  "newVal f cur (JObj s) = valOf (Inr (withProps (baseOf cur) (mergeProps f s (propsOf (baseOf cur)))))"
  by (simp add: newVal_def mergeGen_fold)

lemma mergeProps_frame:
  "k \<notin> fst ` set src \<Longrightarrow> map_of (mergeProps f src ps) k = map_of ps k"
  by (induction src arbitrary: ps) (auto simp: update_conv')

lemma mergeProps_key:
  "distinct (map fst src) \<Longrightarrow> (k, sv) \<in> set src \<Longrightarrow>
     map_of (mergeProps f src ps) k = Some (newVal f (map_of ps k) sv)"
proof (induction src arbitrary: ps)
  case Nil
  then show ?case by simp
next
  case (Cons x rest)
  obtain k' sv' where x: "x = (k', sv')" by (cases x)
  show ?case
  proof (cases "(k, sv) = x")
    case True
    with Cons.prems x have "k \<notin> fst ` set rest" by auto
    with True x show ?thesis by (simp add: mergeProps_frame update_conv')
  next
    case False
    with Cons.prems x have "(k, sv) \<in> set rest" "k \<noteq> k'" by force+
    with Cons.IH[of "AList.update k' (newVal f (map_of ps k') sv') ps"] Cons.prems x
    show ?thesis by (simp add: update_conv')
  qed
qed

lemma deepMerge_container:
  "isContainer t \<Longrightarrow> deepMerge t src = Inr (withProps t (mergeProps False src (propsOf t)))"
  by (simp add: deepMerge_mergeGen mergeGen_fold)

lemma forceMerge_container:
  "isContainer t \<Longrightarrow> forceMerge t src = Inr (withProps t (mergeProps True src (propsOf t)))"
  by (simp add: forceMerge_mergeGen mergeGen_fold)


lemma lookupPath_Cons_container:
  "isContainer t \<Longrightarrow> lookupPath t (k # ks) = lookupPath (map_of (propsOf t) k) ks"
  by (simp add: getProp_container)


lemma distinctKeys_agentDefaults: "distinctKeys (JObj agentDefaults)"
  by (simp add: agentDefaults_def)

lemma main_merges:
  "isContainer (Some j) \<Longrightarrow>
     andThen (forceMerge (Some j) gatewayDefaults) (\<lambda>c1. deepMerge c1 agentDefaults)
       = Inr (withProps (Some j)
           (mergeProps False agentDefaults (mergeProps True gatewayDefaults (propsOf (Some j)))))"
  by (simp add: forceMerge_container deepMerge_container)

lemma main_container:
  assumes "isContainer (Some j)"
  shows "main e j =
     (let c2 = withProps (Some j)
           (mergeProps False agentDefaults (mergeProps True gatewayDefaults (propsOf (Some j))))
      in if truthyStr (ollamaUrl e) \<and> truthyStr (ollamaKey e) then provision e c2 else Inr c2)"
  using assms by (simp add: main_def forceMerge_container deepMerge_container Let_def)

lemma defaults_frame:
  "k \<noteq> ''gateway'' \<Longrightarrow> k \<noteq> ''agents'' \<Longrightarrow>
     map_of (mergeProps False agentDefaults (mergeProps True gatewayDefaults ps)) k = map_of ps k"
proof -
  assume "k \<noteq> ''gateway''" "k \<noteq> ''agents''"
  then have "k \<notin> fst ` set agentDefaults" "k \<notin> fst ` set gatewayDefaults"
    by (simp_all add: agentDefaults_def gatewayDefaults_def)
  then show ?thesis by (simp add: mergeProps_frame)
qed

lemma provision_prefix:
  assumes "provision e c = Inr c'"
  defines "ms \<equiv> orEmpty (map_of (propsOf c) ''models'')"
  defines "pv \<equiv> orEmpty (map_of (propsOf ms) ''providers'')"
  defines "pv1 \<equiv> withProps pv (AList.update ''ollama''
                    (ollamaEntry e (orEmpty (map_of (propsOf pv) ''ollama''))) (propsOf pv))"
  shows "isContainer c \<and> isContainer ms \<and> pv \<noteq> None \<and>
         (if truthyStr (ollamaModel e)
          then isContainer pv \<and>
            (\<exists>o1. addModel e (Some (ollamaEntry e (orEmpty (map_of (propsOf pv) ''ollama'')))) = Inr (Some o1) \<and>
               setDefaultModel e (writeBack c ''models'' (writeBack ms ''providers''
                 (withProps pv (AList.update ''ollama'' o1 (propsOf pv))))) = Inr c')
          else c' = writeBack c ''models'' (writeBack ms ''providers'' pv1))"
proof -
  from assms(1) obtain c1 m m1 p ex p1 where
    c1: "ensureProp c ''models'' = Inr c1" and m: "getProp c1 ''models'' = Inr m" and
    m1: "ensureProp m ''providers'' = Inr m1" and p: "getProp m1 ''providers'' = Inr p" and
    ex: "getProp p ''ollama'' = Inr ex" and
    p1: "setProp p ''ollama'' (ollamaEntry e (orEmpty ex)) = Inr p1" and
    r: "(if truthyStr (ollamaModel e)
         then andThen (getProp p1 ''ollama'') (\<lambda>ollama.
              andThen (addModel e ollama) (\<lambda>ollama1.
              setDefaultModel e (writeBack c1 ''models''
                (writeBack m1 ''providers'' (writeBack p1 ''ollama'' ollama1)))))
         else Inr (writeBack c1 ''models'' (writeBack m1 ''providers'' p1))) = Inr c'"
    unfolding provision_def andThen_eq_Inr orEmpty_def[symmetric] by auto
  from ex obtain pj where pj: "p = Some pj" by (cases p) simp_all
  with ensureProp_Inr[OF m1 p] have cm: "isContainer m" and cm1: "isContainer m1"
    and pp: "p = orEmpty (map_of (propsOf m) ''providers'')"
    and wm: "\<And>x. writeBack m1 ''providers'' (Some x) = writeBack m ''providers'' (Some x)"
    by auto
  from cm have "m \<noteq> None" using isContainer_Some by blast
  with ensureProp_Inr[OF c1 m] have cc: "isContainer c" and cc1: "isContainer c1"
    and mm: "m = ms"
    and wc: "\<And>x. writeBack c1 ''models'' (Some x) = writeBack c ''models'' (Some x)"
    by (auto simp: ms_def)
  from pp mm have ppv: "p = pv" by (simp add: pv_def)
  from ex have exv: "ex = map_of (propsOf pv) ''ollama''" using ppv getProp_Inr by blast
  from p1 have p1v: "p1 = pv1"
    using setProp_Inr[OF p1] by (simp add: pv1_def ppv exv)
  obtain p1j where p1j: "p1 = Some p1j" using p1v pj ppv
    by (cases pj) (auto simp: pv1_def)
  have wmj: "isContainer (writeBack m ''providers'' (Some x))" for x
    using cm by (simp add: writeBack_container)
  have base: "isContainer c \<and> isContainer ms \<and> pv \<noteq> None"
    using cc cm mm pj ppv by simp
  show ?thesis
  proof (cases "truthyStr (ollamaModel e)")
    case False
    with r have "c' = writeBack c1 ''models'' (writeBack m1 ''providers'' p1)" by simp
    also have "\<dots> = writeBack c ''models'' (writeBack ms ''providers'' pv1)"
      using p1j wm wc isContainer_Some[OF wmj[of p1j]] p1v mm by auto
    finally show ?thesis using base False by simp
  next
    case True
    with r obtain ol ol1 where ol: "getProp p1 ''ollama'' = Inr ol"
      and ol1: "addModel e ol = Inr ol1"
      and sd: "setDefaultModel e (writeBack c1 ''models''
                (writeBack m1 ''providers'' (writeBack p1 ''ollama'' ol1))) = Inr c'"
      by (auto simp: andThen_eq_Inr)
    from ol1 have "ol \<noteq> None" by (cases ol) (auto simp: addModel_def)
    with ol p1v have cp: "isContainer pv"
      using getProp_primitive[of p1 "''ollama''" ol] by (auto simp: pv1_def)
    with ol p1v have olv: "ol = Some (ollamaEntry e (orEmpty (map_of (propsOf pv) ''ollama'')))"
      by (simp add: pv1_def getProp_container update_conv')
    have col: "isContainer ol" by (simp add: olv ollamaEntry_def)
    from ol1 col have "isContainer ol1"
      by (auto simp: addModel_def andThen_eq_Inr setProp_container getProp_container split: if_splits)
    then obtain o1 where o1: "ol1 = Some o1" using isContainer_Some by blast
    have w1: "writeBack p1 ''ollama'' ol1 = withProps pv (AList.update ''ollama'' o1 (propsOf pv))"
      using cp p1v o1 by (simp add: pv1_def writeBack_container)
    obtain xj where xj: "withProps pv (AList.update ''ollama'' o1 (propsOf pv)) = Some xj"
      using isContainer_Some[of "withProps pv (AList.update ''ollama'' o1 (propsOf pv))"] cp by auto
    have "writeBack c1 ''models'' (writeBack m1 ''providers'' (writeBack p1 ''ollama'' ol1))
        = writeBack c ''models'' (writeBack ms ''providers''
            (withProps pv (AList.update ''ollama'' o1 (propsOf pv))))"
      using w1 xj wm wc isContainer_Some[OF wmj[of xj]] mm by auto
    with sd ol1 olv o1 base cp True show ?thesis by auto
  qed
qed

lemma main_Inr_container: "main e j = Inr c' \<Longrightarrow> isContainer (Some j)"
  by (cases j) (simp_all add: main_def gatewayDefaults_def)

lemma getProp_writeBack:
  "isContainer t \<Longrightarrow> getProp (writeBack t k (Some c)) k = Inr (Some c)"
  by (simp add: writeBack_container getProp_container update_conv')

lemma lookupPath_append: "lookupPath v (p @ q) = lookupPath (lookupPath v p) q"
  by (induction p arbitrary: v) (auto split: sum.splits)

lemma lookupPath_baseOf [simp]: "lookupPath (baseOf v) (k # ks) = lookupPath v (k # ks)"
  by (cases v rule: truthy.cases) (simp_all add: baseOf_def)

lemma orEmpty_container [simp]: "isContainer v \<Longrightarrow> orEmpty v = v"
  by (cases v rule: truthy.cases) (simp_all add: orEmpty_def)

lemma newVal_mapping_Some:
  "Some (newVal f cur (JObj s)) = withProps (baseOf cur) (mergeProps f s (propsOf (baseOf cur)))"
proof -
  obtain cj where "withProps (baseOf cur) (mergeProps f s (propsOf (baseOf cur))) = Some cj"
    using isContainer_Some[of "withProps (baseOf cur) (mergeProps f s (propsOf (baseOf cur)))"]
    by auto
  then show ?thesis by (simp add: newVal_mapping)
qed

lemma isContainer_newVal [simp]: "isContainer (Some (newVal f cur (JObj s)))"
  by (simp add: newVal_mapping_Some)

lemma propsOf_newVal [simp]:
  "propsOf (Some (newVal f cur (JObj s))) = mergeProps f s (propsOf (baseOf cur))"
  by (simp add: newVal_mapping_Some)

lemma mergedProps_agents:
  "\<exists>ag df. map_of (mergedProps j) ''agents'' = Some ag \<and> isContainer (Some ag) \<and>
     map_of (propsOf (Some ag)) ''defaults'' = Some df \<and> isContainer (Some df) \<and>
     map_of (propsOf (Some df)) ''model'' = lookupPath (Some j) [''agents'', ''defaults'', ''model'']"
proof -
  have a: "map_of (mergeProps True gatewayDefaults (propsOf (Some j))) ''agents''
      = map_of (propsOf (Some j)) ''agents''"
    by (rule mergeProps_frame) (simp add: gatewayDefaults_def)
  have "lookupPath (Some j) [''agents'', ''defaults'', ''model'']
      = lookupPath (map_of (propsOf (Some j)) ''agents'') [''defaults'', ''model'']"
    by (cases j) simp_all
  also have "\<dots> = lookupPath (baseOf (map_of (propsOf (Some j)) ''agents'')) [''defaults'', ''model'']"
    by (rule lookupPath_baseOf[symmetric])
  also have "\<dots> = lookupPath (map_of (propsOf (baseOf (map_of (propsOf (Some j)) ''agents''))) ''defaults'') [''model'']"
    by (simp add: getProp_container)
  also have "\<dots> = lookupPath (baseOf (map_of (propsOf (baseOf (map_of (propsOf (Some j)) ''agents''))) ''defaults'')) [''model'']"
    by (rule lookupPath_baseOf[symmetric])
  also have "\<dots> = map_of (propsOf (baseOf (map_of (propsOf (baseOf (map_of (propsOf (Some j)) ''agents''))) ''defaults''))) ''model''"
    by (simp add: getProp_container)
  finally show ?thesis
    by (simp add: mergedProps_def agentDefaults_def a update_conv')
qed

lemma main_container':
  assumes "isContainer (Some j)"
  shows "main e j =
     (if truthyStr (ollamaUrl e) \<and> truthyStr (ollamaKey e)
      then provision e (withProps (Some j) (mergedProps j))
      else Inr (withProps (Some j) (mergedProps j)))"
  using assms by (simp add: main_container mergedProps_def Let_def)

lemma main_model_lookup:
  assumes "main e j = Inr c'" and "truthyStr (ollamaUrl e)" and "truthyStr (ollamaKey e)"
    and "truthyStr (ollamaModel e)"
  shows "lookupPath c' [''agents'', ''defaults'', ''model''] =
     (if lookupPath (Some j) [''agents'', ''defaults'', ''model'', ''primary'']
           = Some (JStr (newModel e))
      then lookupPath (Some j) [''agents'', ''defaults'', ''model'']
      else Some (JObj [(''primary'', JStr (newModel e))]))"
proof -
  have cj: "isContainer (Some j)" using assms(1) by (rule main_Inr_container)
  define c2 where "c2 = withProps (Some j) (mergedProps j)"
  have c2: "isContainer c2" "propsOf c2 = mergedProps j" using cj by (simp_all add: c2_def)
  from assms cj have pr: "provision e c2 = Inr c'" by (simp add: main_container' c2_def)
  define ms where "ms = orEmpty (map_of (propsOf c2) ''models'')"
  define pv where "pv = orEmpty (map_of (propsOf ms) ''providers'')"
  from provision_prefix[OF pr] assms(4) obtain o1 where
    cms: "isContainer ms" and cpv: "isContainer pv" and
    sd: "setDefaultModel e (writeBack c2 ''models'' (writeBack ms ''providers''
                 (withProps pv (AList.update ''ollama'' o1 (propsOf pv))))) = Inr c'"
    by (auto simp: ms_def pv_def)
  define cM where "cM = writeBack c2 ''models'' (writeBack ms ''providers''
                 (withProps pv (AList.update ''ollama'' o1 (propsOf pv))))"
  obtain pj where pj: "withProps pv (AList.update ''ollama'' o1 (propsOf pv)) = Some pj"
    using isContainer_Some[of "withProps pv (AList.update ''ollama'' o1 (propsOf pv))"] cpv by auto
  obtain mj where mj: "writeBack ms ''providers'' (Some pj) = Some mj"
    using isContainer_Some[of "writeBack ms ''providers'' (Some pj)"] cms
    by (auto simp: writeBack_container)
  have cMc: "isContainer cM" and cMa: "map_of (propsOf cM) ''agents'' = map_of (mergedProps j) ''agents''"
    using c2 pj mj by (simp_all add: cM_def writeBack_container update_conv')
  from mergedProps_agents[of j] obtain ag df where
    ag: "map_of (mergedProps j) ''agents'' = Some ag" "isContainer (Some ag)" and
    df: "map_of (propsOf (Some ag)) ''defaults'' = Some df" "isContainer (Some df)" and
    md: "map_of (propsOf (Some df)) ''model'' = lookupPath (Some j) [''agents'', ''defaults'', ''model'']"
    by blast
  let ?df1 = "if lookupPath (map_of (propsOf (Some df)) ''model'') [''primary''] \<noteq> Some (JStr (newModel e))
            then withProps (Some df) (AList.update ''model'' (JObj [(''primary'', JStr (newModel e))])
                   (propsOf (Some df)))
            else Some df"
  have c': "c' = writeBack cM ''agents'' (writeBack (Some ag) ''defaults'' ?df1)"
    using setDefaultModel_shape[OF sd[folded cM_def]] cMa ag df by simp
  have cd1': "isContainer ?df1"
    using df(2) by (simp del: lookupPath.simps)
  then obtain d1j where d1j: "?df1 = Some d1j"
    using isContainer_Some by blast
  have cd1: "isContainer (Some d1j)"
    using cd1' unfolding d1j .
  obtain a1j where a1j: "writeBack (Some ag) ''defaults'' (Some d1j) = Some a1j"
    using isContainer_Some[of "writeBack (Some ag) ''defaults'' (Some d1j)"] ag(2)
    by (auto simp: writeBack_container)
  have "getProp c' ''agents'' = Inr (Some a1j)"
    using c' d1j a1j cMc by (simp add: getProp_writeBack)
  moreover have "getProp (Some a1j) ''defaults'' = Inr (Some d1j)"
    using a1j[symmetric] ag(2) by (simp add: getProp_writeBack)
  ultimately have "lookupPath c' [''agents'', ''defaults'', ''model''] = map_of (propsOf (Some d1j)) ''model''"
    using cd1 by (simp add: getProp_container)
  moreover have "lookupPath (Some j) [''agents'', ''defaults'', ''model'', ''primary'']
      = lookupPath (lookupPath (Some j) [''agents'', ''defaults'', ''model'']) [''primary'']"
    using lookupPath_append[of "Some j" "[''agents'', ''defaults'', ''model'']" "[''primary'']"] by simp
  ultimately show ?thesis
    using d1j[symmetric] df(2) md by (auto simp: update_conv' split: if_splits)
qed

lemma someId_Inr: "someId i es = Inr b \<Longrightarrow> b = (\<exists>m \<in> set es. hasId i m)"
  by (induction es) (auto simp: hasId_def split: sum.splits if_splits)

lemma elementsOf_Inr:
  "elementsOf (if truthy mv then mv else Some (JArr [] [])) = Inr es \<Longrightarrow> es = elems mv"
  by (cases mv rule: truthy.cases) (auto split: if_splits)

lemma addModel_Inr:
  assumes "addModel e ol = Inr ol'"
  defines "es \<equiv> elems (map_of (propsOf ol) ''models'')"
  shows "ol' = (if \<exists>m \<in> set es. hasId (strOf (ollamaModel e)) m then ol
               else withProps ol (AList.update ''models'' (JArr (es @ [newModelEntry e]) []) (propsOf ol)))"
proof -
  from assms(1) obtain mv es' b where
    mv: "getProp ol ''models'' = Inr mv" and
    el: "elementsOf (if truthy mv then mv else Some (JArr [] [])) = Inr es'" and
    b: "someId (strOf (ollamaModel e)) es' = Inr b" and
    r: "(if \<not> b then setProp ol ''models'' (JArr (es' @ [newModelEntry e]) []) else Inr ol) = Inr ol'"
    by (auto simp: addModel_def andThen_eq_Inr)
  from mv have "mv = map_of (propsOf ol) ''models''" by (rule getProp_Inr)
  with el have "es' = es" unfolding es_def by (auto dest: elementsOf_Inr)
  with b r someId_Inr[OF b] show ?thesis
    by (auto dest: setProp_Inr split: if_splits)
qed

lemma last_showNat: "last (showNat n) = char_of (48 + n mod 10)"
  by (subst showNat.simps) simp

lemma showNat_neq:
  assumes "k \<noteq> []" and "of_char (last k) \<notin> {48..<58::nat}"
  shows "showNat n \<noteq> k"
proof
  assume "showNat n = k"
  then have "last k = char_of (48 + n mod 10)" using last_showNat[of n] by simp
  then have "of_char (last k) = (48 + n mod 10) mod (256::nat)" by simp
  moreover have "(48 + n mod 10) mod (256::nat) = 48 + n mod 10"
  proof -
    have "n mod 10 < 10" by simp
    then show ?thesis by simp
  qed
  ultimately show False using assms(2) by simp
qed

lemma name_notin_indexed:
  assumes "k \<noteq> []" and "of_char (last k) \<notin> {48..<58::nat}"
  shows "k \<notin> fst ` set (indexed xs)"
proof
  assume "k \<in> fst ` set (indexed xs)"
  then obtain v where "(k, v) \<in> set (zip (map showNat [0..<length xs]) xs)"
    by (auto simp: indexed_def)
  then have "k \<in> set (map showNat [0..<length xs])" by (rule set_zip_leftD)
  then show False using showNat_neq[OF assms] by auto
qed

lemma map_of_fold_update:
  "map_of (fold (\<lambda>(k, v). AList.update k v) xs acc) = map_of acc ++ map_of (rev xs)"
proof (induction xs arbitrary: acc)
  case Nil
  then show ?case by simp
next
  case (Cons x xs)
  obtain k v where x: "x = (k, v)" by (cases x)
  have "map_of (fold (\<lambda>(k, v). AList.update k v) (x # xs) acc)
      = map_of (AList.update k v acc) ++ map_of (rev xs)"
    using Cons.IH[of "AList.update k v acc"] by (simp add: x)
  also have "\<dots> = (map_of acc ++ [k \<mapsto> v]) ++ map_of (rev xs)"
    by (simp add: update_conv')
  also have "\<dots> = map_of acc ++ map_of (rev (x # xs))"
    by (simp add: x)
  finally show ?case .
qed

lemma map_of_rev_distinct: "distinct (map fst xs) \<Longrightarrow> map_of (rev xs) = map_of xs"
proof (induction xs)
  case Nil
  then show ?case by simp
next
  case (Cons x xs)
  obtain k v where x: "x = (k, v)" by (cases x)
  from Cons.prems x have "map_of xs k = None"
    by (simp add: map_of_eq_None_iff)
  with Cons x show ?case
    by (auto simp: map_add_def fun_eq_iff split: option.splits)
qed

lemma objectLiteral_lookup:
  "map_of (objectLiteral kvs) = map_of (rev kvs)"
  by (simp add: objectLiteral_def map_of_fold_update)

lemma spreadProps_lookup:
  assumes "distinct (map fst (propsOf ex))" and "k \<noteq> []" and "of_char (last k) \<notin> {48..<58::nat}"
  shows "map_of (rev (spreadProps (orEmpty ex))) k = map_of (propsOf ex) k"
proof -
  have ni: "map_of (rev (indexed xs)) k = None" for xs
    using name_notin_indexed[OF assms(2,3), of xs] by (simp add: map_of_eq_None_iff)
  show ?thesis
    using assms(1) ni
    by (cases ex rule: truthy.cases)
      (auto simp: orEmpty_def map_of_rev_distinct map_add_def split: option.splits)
qed

lemma ollamaEntry_lookup:
  assumes "distinct (map fst (propsOf ex))" and "k \<noteq> []" and "of_char (last k) \<notin> {48..<58::nat}"
    and "k \<notin> {''baseUrl'', ''apiKey'', ''api'', ''authHeader''}"
  shows "map_of (propsOf (Some (ollamaEntry e (orEmpty ex)))) k = map_of (propsOf ex) k"
  using assms(4) spreadProps_lookup[OF assms(1,2,3)]
  by (simp add: ollamaEntry_def objectLiteral_lookup map_add_def split: option.splits)

lemma lookupPath_single: "lookupPath v [k] = map_of (propsOf v) k"
  by (cases v rule: truthy.cases) simp_all

lemma distinct_fold_update:
  "distinct (map fst acc) \<Longrightarrow> distinct (map fst (fold (\<lambda>(k, v). AList.update k v) xs acc))"
  by (induction xs arbitrary: acc) (auto simp: distinct_update)

lemma distinct_objectLiteral: "distinct (map fst (objectLiteral kvs))"
  by (simp add: objectLiteral_def distinct_fold_update)

lemma orEmpty_Some: "\<exists>j. orEmpty v = Some j"
  by (cases v rule: truthy.cases) (simp_all add: orEmpty_def)

lemma withProps_Some: "\<exists>j'. withProps (Some j) ps = Some j'"
  by (cases j) simp_all

lemma setDefaultModel_frame:
  assumes "setDefaultModel e cM = Inr c'" and "k \<noteq> ''agents''"
  shows "isContainer cM \<and> isContainer c' \<and> map_of (propsOf c') k = map_of (propsOf cM) k"
proof -
  define ag where "ag = orEmpty (map_of (propsOf cM) ''agents'')"
  define df where "df = orEmpty (map_of (propsOf ag) ''defaults'')"
  define df1 where "df1 = (if lookupPath (map_of (propsOf df) ''model'') [''primary''] \<noteq> Some (JStr (newModel e))
            then withProps df (AList.update ''model'' (JObj [(''primary'', JStr (newModel e))])
                   (propsOf df))
            else df)"
  from setDefaultModel_shape[OF assms(1)] have cc: "isContainer cM" and ca: "isContainer ag"
    and c': "c' = writeBack cM ''agents'' (writeBack ag ''defaults'' df1)"
    unfolding ag_def df_def df1_def by blast+
  obtain dj where dj: "df = Some dj" unfolding df_def using orEmpty_Some by blast
  have "\<exists>d1j. df1 = Some d1j"
    unfolding df1_def dj using withProps_Some[of dj] by (simp del: lookupPath.simps)
  then obtain d1j where d1j: "df1 = Some d1j" by blast
  obtain xj where xj: "writeBack ag ''defaults'' df1 = Some xj"
    using isContainer_Some[of "writeBack ag ''defaults'' df1"] ca d1j
    by (auto simp: writeBack_container)
  show ?thesis
    using cc c' xj assms(2) by (simp add: writeBack_container update_conv')
qed

lemma provision_entry:
  assumes "provision e c = Inr c'" and "truthyStr (ollamaModel e)"
  shows "\<exists>o1. lookupPath c' ollamaPath = Some o1 \<and>
           addModel e (Some (ollamaEntry e (orEmpty (lookupPath c ollamaPath)))) = Inr (Some o1)"
proof -
  define ms where "ms = orEmpty (map_of (propsOf c) ''models'')"
  define pv where "pv = orEmpty (map_of (propsOf ms) ''providers'')"
  from provision_prefix[OF assms(1)] assms(2) obtain o1 where
    cc: "isContainer c" and cms: "isContainer ms" and cpv: "isContainer pv" and
    am: "addModel e (Some (ollamaEntry e (orEmpty (map_of (propsOf pv) ''ollama'')))) = Inr (Some o1)" and
    sd: "setDefaultModel e (writeBack c ''models'' (writeBack ms ''providers''
                 (withProps pv (AList.update ''ollama'' o1 (propsOf pv))))) = Inr c'"
    by (auto simp: ms_def pv_def)
  have "lookupPath c ollamaPath = lookupPath (map_of (propsOf c) ''models'') [''providers'', ''ollama'']"
    using cc by (simp add: ollamaPath_def getProp_container)
  also have "\<dots> = lookupPath ms [''providers'', ''ollama'']"
    unfolding ms_def by (rule lookupPath_orEmpty[symmetric])
  also have "\<dots> = lookupPath (map_of (propsOf ms) ''providers'') [''ollama'']"
    using cms by (simp add: getProp_container)
  also have "\<dots> = lookupPath pv [''ollama'']"
    unfolding pv_def by (rule lookupPath_orEmpty[symmetric])
  also have "\<dots> = map_of (propsOf pv) ''ollama''"
    by (rule lookupPath_single)
  finally have ex: "lookupPath c ollamaPath = map_of (propsOf pv) ''ollama''" .
  define cM where "cM = writeBack c ''models'' (writeBack ms ''providers''
                 (withProps pv (AList.update ''ollama'' o1 (propsOf pv))))"
  obtain pj where pj: "withProps pv (AList.update ''ollama'' o1 (propsOf pv)) = Some pj"
    using isContainer_Some[of "withProps pv (AList.update ''ollama'' o1 (propsOf pv))"] cpv by auto
  obtain mj where mj: "writeBack ms ''providers'' (Some pj) = Some mj"
    using isContainer_Some[of "writeBack ms ''providers'' (Some pj)"] cms
    by (auto simp: writeBack_container)
  have g1: "getProp cM ''models'' = Inr (Some mj)"
    using cc pj mj by (simp add: cM_def getProp_writeBack)
  have g2: "getProp (Some mj) ''providers'' = Inr (Some pj)"
    using cms mj[symmetric] by (simp add: getProp_writeBack)
  have g3: "getProp (Some pj) ''ollama'' = Inr (Some o1)"
    using cpv pj[symmetric] by (simp add: getProp_container update_conv')
  have cMc: "isContainer cM"
    using cc pj mj by (simp add: cM_def writeBack_container)
  have "getProp c' ''models'' = getProp cM ''models''"
    using setDefaultModel_frame[OF sd[folded cM_def], of "''models''"]
    by (simp add: getProp_container)
  with g1 g2 g3 have "lookupPath c' ollamaPath = Some o1"
    by (simp add: ollamaPath_def)
  with am ex show ?thesis by simp
qed

lemma modelsPath_split: "lookupPath c modelsPath = map_of (propsOf (lookupPath c ollamaPath)) ''models''"
  using lookupPath_append[of c ollamaPath "[''models'']"]
  by (simp only: modelsPath_def ollamaPath_def lookupPath_single append.simps)

lemma hasId_newModelEntry: "hasId (strOf (ollamaModel e)) (newModelEntry e)"
  by (simp add: hasId_def newModelEntry_def)

lemma provision_models:
  assumes "provision e c = Inr c'" and "truthyStr (ollamaModel e)"
    and "distinct (map fst (propsOf (lookupPath c ollamaPath)))"
  defines "es \<equiv> elems (lookupPath c modelsPath)"
  shows "lookupPath c' modelsPath =
           (if \<exists>m \<in> set es. hasId (strOf (ollamaModel e)) m then lookupPath c modelsPath
            else Some (JArr (es @ [newModelEntry e]) []))
         \<and> distinct (map fst (propsOf (lookupPath c' ollamaPath)))"
proof -
  let ?entry = "ollamaEntry e (orEmpty (lookupPath c ollamaPath))"
  from provision_entry[OF assms(1,2)] obtain o1 where
    o1: "lookupPath c' ollamaPath = Some o1" and am: "addModel e (Some ?entry) = Inr (Some o1)"
    by blast
  have em: "map_of (propsOf (Some ?entry)) ''models'' = lookupPath c modelsPath"
    using ollamaEntry_lookup[OF assms(3), of "''models''" e]
    by (simp add: modelsPath_split)
  have ce: "isContainer (Some ?entry)" by (simp add: ollamaEntry_def)
  have de: "distinct (map fst (propsOf (Some ?entry)))"
    by (simp add: ollamaEntry_def distinct_objectLiteral)
  note r = addModel_Inr[OF am, unfolded em, folded es_def]
  show ?thesis
  proof (cases "\<exists>m \<in> set es. hasId (strOf (ollamaModel e)) m")
    case True
    with r have "o1 = ?entry" by simp
    with o1 em de True show ?thesis by (simp add: modelsPath_split)
  next
    case False
    with r have "Some o1 = withProps (Some ?entry)
        (AList.update ''models'' (JArr (es @ [newModelEntry e]) []) (propsOf (Some ?entry)))"
      by simp
    with o1 ce de False show ?thesis
      by (simp add: modelsPath_split update_conv' distinct_update)
  qed
qed

lemmas run_defs = main_def provision_def ensureProp_def ollamaEntry_def objectLiteral_def
  addModel_def setDefaultModel_def newModel_def newModelEntry_def contextWindow_def
  gatewayDefaults_def agentDefaults_def andThen_def

lemma provision_empty_ok: "\<exists>c'. provision envFull (Some (JObj [])) = Inr c'"
  by (simp add: run_defs envFull_def)

lemma main_envB_docA_ok: "\<exists>c'. main envB docA = Inr c'"
  by (simp add: run_defs envB_def docA_def)

text \<open>
  The two sources the script merges have ordinary names only, and so have the names that
  the provisioning block reads and writes.
\<close>

lemma script_names_ordinary:
  "list_all ordinaryName
     [''models'', ''providers'', ''ollama'', ''id'', ''agents'', ''defaults'', ''model'', ''primary'',
      ''baseUrl'', ''apiKey'', ''api'', ''authHeader'', ''name'', ''reasoning'', ''input'', ''cost'',
      ''output'', ''contextWindow'', ''maxTokens'']"
  by (simp add: ordinaryName_def reservedNames_def)


lemma script_sources_ordinary:
  "ordinaryKeys (JObj gatewayDefaults) \<and> ordinaryKeys (JObj agentDefaults)"
  by (simp add: gatewayDefaults_def agentDefaults_def ordinaryName_def reservedNames_def)
section \<open>Writing, reading back and running again\<close>

lemma stringify_JObj [simp]: "stringify (JObj kvs) = JObj (stringifyProps kvs)"
  by (simp add: stringifyProps_def)

declare stringify.simps(2) [simp del]

lemma stringify_idem [simp]: "stringify (stringify j) = stringify j"
  by (induction j rule: stringify.induct) (auto simp: stringifyProps_def)

lemma stringifyProps_idem [simp]: "stringifyProps (stringifyProps kvs) = stringifyProps kvs"
  by (simp add: stringifyProps_def case_prod_unfold comp_def)

lemma stringifyProps_Nil [simp]: "stringifyProps [] = []"
  by (simp add: stringifyProps_def)

lemma stringifyProps_update:
  "stringifyProps (AList.update k v kvs) = AList.update k (stringify v) (stringifyProps kvs)"
  by (induction kvs) (auto simp: stringifyProps_def)

lemma map_of_stringifyProps:
  "map_of (stringifyProps kvs) k = map_option stringify (map_of kvs k)"
  by (induction kvs) (auto simp: stringifyProps_def)

lemma clean_None [simp]: "clean None"
  by (simp add: clean_def)

lemma clean_stringify [simp]: "clean (Some (stringify j))"
  by (simp add: clean_def)

lemma clean_JObj: "clean (Some (JObj kvs)) \<longleftrightarrow> stringifyProps kvs = kvs"
  by (simp add: clean_def)

lemma clean_JArr: "clean (Some (JArr es ps)) \<longleftrightarrow> ps = [] \<and> map stringify es = es"
  by (auto simp: clean_def)

lemma clean_lookup: "stringifyProps kvs = kvs \<Longrightarrow> clean (map_of kvs k)"
proof -
  assume a: "stringifyProps kvs = kvs"
  have "map_of kvs k = map_option stringify (map_of kvs k)"
    using map_of_stringifyProps[of kvs k] a by simp
  then show ?thesis by (cases "map_of kvs k") (auto simp: clean_def)
qed

lemma clean_props: "clean v \<Longrightarrow> stringifyProps (propsOf v) = propsOf v"
  by (cases v rule: truthy.cases) (auto simp: clean_def)

lemma applyVals_Nil [simp]: "applyVals [] ps = ps"
  by (simp add: applyVals_def)

lemma applyVals_Cons [simp]:
  "applyVals ((k, val) # vals) ps = applyVals vals (AList.update k (val (map_of ps k)) ps)"
  by (simp add: applyVals_def)

lemma applyVals_frame:
  "k \<notin> fst ` set vals \<Longrightarrow> map_of (applyVals vals ps) k = map_of ps k"
  by (induction vals arbitrary: ps) (auto simp: update_conv')

lemma applyVals_key:
  "distinct (map fst vals) \<Longrightarrow> (k, val) \<in> set vals \<Longrightarrow>
     map_of (applyVals vals ps) k = Some (val (map_of ps k))"
proof (induction vals arbitrary: ps)
  case Nil
  then show ?case by simp
next
  case (Cons x rest)
  obtain k' val' where x: "x = (k', val')" by (cases x)
  show ?case
  proof (cases "(k, val) = x")
    case True
    with Cons.prems x have "k \<notin> fst ` set rest" by auto
    with True x show ?thesis by (simp add: applyVals_frame update_conv')
  next
    case False
    with Cons.prems x have "(k, val) \<in> set rest" "k \<noteq> k'" by force+
    with Cons.IH[of "AList.update k' (val' (map_of ps k')) ps"] Cons.prems x
    show ?thesis by (simp add: update_conv')
  qed
qed

lemma applyVals_settled:
  assumes "distinct (map fst vals)"
    and "\<forall>(k, val) \<in> set vals. \<exists>v. map_of ps k = Some v \<and> stringify (val (Some v)) = stringify v"
  shows "stringifyProps (applyVals vals ps) = stringifyProps ps"
  using assms
proof (induction vals arbitrary: ps)
  case Nil
  then show ?case by simp
next
  case (Cons x rest)
  obtain k val where x: "x = (k, val)" by (cases x)
  from Cons.prems(2) x obtain v where v: "map_of ps k = Some v"
    and sv: "stringify (val (Some v)) = stringify v" by auto
  let ?ps = "AList.update k (val (map_of ps k)) ps"
  have s1: "stringifyProps ?ps = stringifyProps ps"
    using v sv by (simp add: stringifyProps_update update_triv map_of_stringifyProps)
  have "\<forall>(k', val') \<in> set rest. \<exists>v. map_of ?ps k' = Some v \<and> stringify (val' (Some v)) = stringify v"
  proof (clarify)
    fix k' val' assume m: "(k', val') \<in> set rest"
    with Cons.prems(1) x have "k' \<noteq> k" by force
    with Cons.prems(2) m show "\<exists>v. map_of ?ps k' = Some v \<and> stringify (val' (Some v)) = stringify v"
      by (auto simp: update_conv')
  qed
  with Cons.IH[of ?ps] Cons.prems(1) have "stringifyProps (applyVals rest ?ps) = stringifyProps ?ps"
    by simp
  with s1 x show ?case by simp
qed

lemma applyVals_idem:
  assumes "distinct (map fst vals)" and "stringifyProps ps = ps"
    and "\<forall>(k, val) \<in> set vals. idemAt val (map_of ps k)"
  shows "stringifyProps (applyVals vals (stringifyProps (applyVals vals ps)))
           = stringifyProps (applyVals vals ps)"
proof -
  let ?q = "stringifyProps (applyVals vals ps)"
  have "\<forall>(k, val) \<in> set vals. \<exists>v. map_of ?q k = Some v \<and> stringify (val (Some v)) = stringify v"
  proof (clarify)
    fix k val assume m: "(k, val) \<in> set vals"
    then have "map_of ?q k = Some (stringify (val (map_of ps k)))"
      using applyVals_key[OF assms(1) m] by (simp add: map_of_stringifyProps)
    moreover have "idemAt val (map_of ps k)" using assms(3) m by auto
    ultimately show "\<exists>v. map_of ?q k = Some v \<and> stringify (val (Some v)) = stringify v"
      by (simp add: idemAt_def)
  qed
  from applyVals_settled[OF assms(1) this] show ?thesis by simp
qed

lemma goodBase_baseOf: "goodBase baseOf"
  by (auto simp: goodBase_def baseOf_def dest: isContainer_Some)

lemma goodBase_orEmpty: "goodBase orEmpty"
  unfolding goodBase_def
proof (intro allI)
  fix v show "(isContainer v \<longrightarrow> orEmpty v = v) \<and> (orEmpty v = v \<or> orEmpty v = Some (JObj [])) \<and> orEmpty v \<noteq> None"
    by (cases v rule: truthy.cases) (simp_all add: orEmpty_def)
qed

lemma level_idem:
  assumes gb: "goodBase base" and cl: "clean cur" and d: "distinct (map fst vals)"
    and id: "\<forall>(k, val) \<in> set vals. idemAt val (map_of (propsOf (base cur)) k)"
  shows "idemAt (levelVal base vals) cur"
proof -
  from gb have b1: "\<And>v. isContainer v \<Longrightarrow> base v = v"
    and b2: "base cur = cur \<or> base cur = Some (JObj [])" and b3: "base cur \<noteq> None"
    by (auto simp: goodBase_def)
  from b3 obtain bj where bj: "base cur = Some bj" by (cases "base cur") auto
  show ?thesis
  proof (cases "isContainer (Some bj)")
    case False
    with b2 bj have c: "cur = Some bj" by auto
    have "withProps (Some bj) ps = Some bj" for ps
      using False by (cases bj) simp_all
    then have "levelVal base vals cur = bj" by (simp add: levelVal_def bj)
    then have "Some (stringify (levelVal base vals cur)) = cur"
      using cl by (simp add: c clean_def)
    then show ?thesis by (simp add: idemAt_def)
  next
    case nc: True
    show ?thesis
  proof (cases bj)
    case (JObj ps)
    have cps: "stringifyProps ps = ps"
      using b2 cl bj JObj by (auto simp: clean_def)
    let ?q = "applyVals vals ps"
    have x: "levelVal base vals cur = JObj ?q" by (simp add: levelVal_def bj JObj)
    have "base (Some (JObj (stringifyProps ?q))) = Some (JObj (stringifyProps ?q))"
      by (rule b1) simp
    then have "levelVal base vals (Some (stringify (JObj ?q))) = JObj (applyVals vals (stringifyProps ?q))"
      by (simp add: levelVal_def)
    moreover have "stringifyProps (applyVals vals (stringifyProps ?q)) = stringifyProps ?q"
      using applyVals_idem[OF d cps] id bj JObj by simp
    ultimately show ?thesis by (simp add: idemAt_def x)
  next
    case (JArr es ps)
    with b2 bj have c: "cur = Some (JArr es ps)" by auto
    with cl have ps: "ps = []" and es: "map stringify es = es" by (simp_all add: clean_JArr)
    have "levelVal base vals cur = JArr es (applyVals vals [])" by (simp add: levelVal_def bj JArr ps)
    then have "Some (stringify (levelVal base vals cur)) = cur" by (simp add: c ps es)
    then show ?thesis by (simp add: idemAt_def)
  qed (use nc in simp_all)
  qed
qed

lemma mergeProps_applyVals: "mergeProps f s ps = applyVals (srcVals f s) ps"
  by (induction s arbitrary: ps) (auto simp: srcVals_def)

lemma newVal_levelVal: "newVal f cur (JObj s) = levelVal baseOf (srcVals f s) cur"
  using newVal_mapping_Some[of f cur s]
  by (simp add: levelVal_def mergeProps_applyVals[symmetric] flip: newVal_mapping_Some)

lemma newVal_idem:
  "distinctKeys sv \<Longrightarrow> clean cur \<Longrightarrow> idemAt (\<lambda>c. newVal f c sv) cur"
proof (induction sv arbitrary: cur)
  case (JObj s)
  have d: "distinct (map fst (srcVals f s))"
    using JObj.prems(1) by (simp add: srcVals_def comp_def case_prod_unfold)
  have cb: "clean (baseOf cur)" using JObj.prems(2) by (auto simp: baseOf_def clean_def)
  have "\<forall>(k, val) \<in> set (srcVals f s). idemAt val (map_of (propsOf (baseOf cur)) k)"
  proof (clarify)
    fix k val assume "(k, val) \<in> set (srcVals f s)"
    then obtain sv where m: "(k, sv) \<in> set s" and val: "val = (\<lambda>c. newVal f c sv)"
      by (auto simp: srcVals_def)
    have "distinctKeys sv" using JObj.prems(1) m by force
    moreover have "clean (map_of (propsOf (baseOf cur)) k)"
      using cb by (simp add: clean_lookup clean_props)
    ultimately show "idemAt val (map_of (propsOf (baseOf cur)) k)"
      unfolding val using JObj.IH[of "(k, sv)" sv] m by simp
  qed
  from level_idem[OF goodBase_baseOf JObj.prems(2) d this]
  show ?case by (simp add: newVal_levelVal[abs_def])
qed (auto simp: idemAt_def newVal_def split: option.splits)

lemma update_fresh: "k \<notin> fst ` set al \<Longrightarrow> AList.update k v al = al @ [(k, v)]"
  by (induction al) auto

lemma fold_update_fresh:
  "distinct (map fst (al @ xs)) \<Longrightarrow> fold (\<lambda>(k, v). AList.update k v) xs al = al @ xs"
proof (induction xs arbitrary: al)
  case Nil
  then show ?case by simp
next
  case (Cons x xs)
  obtain k v where x: "x = (k, v)" by (cases x)
  from Cons.prems x have "k \<notin> fst ` set al" by auto
  then have "AList.update k v al = al @ [(k, v)]" by (rule update_fresh)
  moreover have "distinct (map fst ((al @ [(k, v)]) @ xs))" using Cons.prems x by simp
  ultimately show ?case using Cons.IH[of "al @ [(k, v)]"] x by simp
qed

lemma fold_update_prefix:
  "fst ` set ys \<inter> fst ` set pre = {} \<Longrightarrow>
     fold (\<lambda>(k, v). AList.update k v) ys (pre @ al) = pre @ fold (\<lambda>(k, v). AList.update k v) ys al"
proof (induction ys arbitrary: al)
  case Nil
  then show ?case by simp
next
  case (Cons y ys)
  obtain k v where y: "y = (k, v)" by (cases y)
  from Cons.prems y have "k \<notin> fst ` set pre" by auto
  then have "AList.update k v (pre @ al) = pre @ AList.update k v al"
    by (induction pre) auto
  with Cons y show ?case by auto
qed

lemma fold_update_same_keys:
  "map fst al' = map fst al \<Longrightarrow> distinct (map fst al) \<Longrightarrow>
     fold (\<lambda>(k, v). AList.update k v) al' al = al'"
proof (induction al' arbitrary: al)
  case Nil
  then show ?case by simp
next
  case (Cons x xs)
  obtain k v where x: "x = (k, v)" by (cases x)
  from Cons.prems x obtain v0 tl where al: "al = (k, v0) # tl" and tl: "map fst xs = map fst tl"
    by (cases al) auto
  from Cons.prems al have d: "distinct (map fst tl)" and nk: "k \<notin> fst ` set tl" by auto
  have "fold (\<lambda>(k, v). AList.update k v) (x # xs) al
      = fold (\<lambda>(k, v). AList.update k v) xs ([(k, v)] @ tl)"
    by (simp add: x al)
  also have "\<dots> = [(k, v)] @ fold (\<lambda>(k, v). AList.update k v) xs tl"
  proof (rule fold_update_prefix)
    have "fst ` set xs = fst ` set tl" using arg_cong[OF tl, of set] by simp
    with nk show "fst ` set xs \<inter> fst ` set [(k, v)] = {}" by simp
  qed
  also have "\<dots> = x # xs" using Cons.IH[OF tl d] x by simp
  finally show ?case .
qed

lemma fold_update_shape:
  "\<exists>al' rest. fold (\<lambda>(k, v). AList.update k v) xs al = al' @ rest \<and> map fst al' = map fst al"
proof (induction xs arbitrary: al)
  case Nil
  show ?case by (intro exI[of _ al] exI[of _ "[]"]) simp
next
  case (Cons x xs)
  obtain k v where x: "x = (k, v)" by (cases x)
  show ?case
  proof (cases "k \<in> fst ` set al")
    case True
    then have "map fst (AList.update k v al) = map fst al" by (simp add: update_keys)
    with Cons.IH[of "AList.update k v al"] x show ?thesis by auto
  next
    case False
    then have u: "AList.update k v al = al @ [(k, v)]" by (rule update_fresh)
    from Cons.IH[of "al @ [(k, v)]"] obtain al' rest where
      f: "fold (\<lambda>(k, v). AList.update k v) xs (al @ [(k, v)]) = al' @ rest"
      and m: "map fst al' = map fst al @ [k]" by auto
    from m have "al' \<noteq> []" by auto
    then have "al' = butlast al' @ [last al']" by simp
    moreover have "map fst (butlast al') = map fst al"
      by (simp add: map_butlast m)
    ultimately have "al' @ rest = butlast al' @ (last al' # rest) \<and> map fst (butlast al') = map fst al"
      by (metis append.assoc append_Cons append_Nil)
    with f u x show ?thesis by auto
  qed
qed

lemma fold_update_fixpoint:
  assumes "distinct (map fst al)"
  shows "fold (\<lambda>(k, v). AList.update k v) (fold (\<lambda>(k, v). AList.update k v) xs al) al
           = fold (\<lambda>(k, v). AList.update k v) xs al"
proof -
  let ?L = "fold (\<lambda>(k, v). AList.update k v) xs al"
  from fold_update_shape[of xs al] obtain al' rest where L: "?L = al' @ rest"
    and m: "map fst al' = map fst al" by blast
  have dL: "distinct (map fst (al' @ rest))"
    using distinct_fold_update[OF assms, of xs] L by simp
  have "fold (\<lambda>(k, v). AList.update k v) (al' @ rest) al
      = fold (\<lambda>(k, v). AList.update k v) rest (fold (\<lambda>(k, v). AList.update k v) al' al)"
    by simp
  also have "\<dots> = fold (\<lambda>(k, v). AList.update k v) rest al'"
    using fold_update_same_keys[OF m assms] by simp
  also have "\<dots> = al' @ rest" by (rule fold_update_fresh[OF dL])
  finally show ?thesis using L by simp
qed

lemma ollamaEntry_fold:
  "ollamaEntry e v = JObj (fold (\<lambda>(k, v). AList.update k v) (spreadProps v) (fixedFields e))"
  by (simp add: ollamaEntry_def objectLiteral_def fixedFields_def)

lemma distinct_fixedFields: "distinct (map fst (fixedFields e))"
  by (simp add: fixedFields_def)

lemma stringifyProps_fixedFields: "stringifyProps (fixedFields e) = fixedFields e"
  by (simp add: fixedFields_def stringifyProps_def)

lemma stringifyProps_Cons [simp]:
  "stringifyProps ((k, v) # kvs) = (k, stringify v) # stringifyProps kvs"
  by (simp add: stringifyProps_def)

lemma stringifyProps_fold_update:
  "stringifyProps (fold (\<lambda>(k, v). AList.update k v) xs acc)
     = fold (\<lambda>(k, v). AList.update k v) (stringifyProps xs) (stringifyProps acc)"
  by (induction xs arbitrary: acc) (auto simp: stringifyProps_update)

lemma stringifyProps_indexed:
  "map stringify es = es \<Longrightarrow> stringifyProps (indexed es) = indexed es"
proof -
  assume a: "map stringify es = es"
  have "stringifyProps (zip ns es) = zip ns (map stringify es)" for ns :: "string list"
    by (induction ns es rule: list_induct2') (auto simp: stringifyProps_def)
  with a show ?thesis by (simp add: indexed_def)
qed

lemma stringifyProps_append:
  "stringifyProps (xs @ ys) = stringifyProps xs @ stringifyProps ys"
  by (simp add: stringifyProps_def)

lemma clean_spreadProps:
  "clean ex \<Longrightarrow> stringifyProps (spreadProps (orEmpty ex)) = spreadProps (orEmpty ex)"
proof (cases ex rule: truthy.cases)
  case (5 s)
  have "map stringify (map (\<lambda>c. JStr [c]) s) = map (\<lambda>c. JStr [c]) s" by (induction s) auto
  then show ?thesis using 5 by (simp add: orEmpty_def stringifyProps_indexed)
qed (auto simp: orEmpty_def clean_def stringifyProps_indexed stringifyProps_append)

lemma clean_ollamaEntry:
  "clean ex \<Longrightarrow> stringify (ollamaEntry e (orEmpty ex)) = ollamaEntry e (orEmpty ex)"
  by (simp add: ollamaEntry_fold stringifyProps_fold_update clean_spreadProps
      stringifyProps_fixedFields)

lemma stringify_newModelEntry: "stringify (newModelEntry e) = newModelEntry e"
  by (simp add: newModelEntry_def stringifyProps_def)

lemma clean_elems: "clean v \<Longrightarrow> map stringify (elems v) = elems v"
  by (cases v rule: truthy.cases) (auto simp: clean_def)

lemma someId_append:
  "someId i es = Inr False \<Longrightarrow> someId i (es @ ms) = someId i ms"
  by (induction es) (auto split: sum.splits if_splits)

lemma ollamaEntry_fixpoint:
  assumes "L = fold (\<lambda>(k, v). AList.update k v) xs (fixedFields e)"
  shows "ollamaEntry e (orEmpty (Some (JObj L))) = JObj L"
  using fold_update_fixpoint[OF distinct_fixedFields, of xs e] assms
  by (simp add: ollamaEntry_fold orEmpty_def)

lemma entryVal_props:
  assumes cl: "clean ex"
    and ok: "truthyStr (ollamaModel e) \<longrightarrow> (\<exists>o1. addModel e (Some (ollamaEntry e (orEmpty ex))) = Inr (Some o1))"
  shows "stringify (entryVal e ex) = entryVal e ex \<and> entryVal e (Some (entryVal e ex)) = entryVal e ex"
proof (cases "truthyStr (ollamaModel e)")
  case False
  then show ?thesis
    using clean_ollamaEntry[OF cl, of e] ollamaEntry_fixpoint[OF refl, of e "spreadProps (orEmpty ex)"]
    by (simp add: entryVal_def ollamaEntry_fold)
next
  case True
  let ?L = "fold (\<lambda>(k, v). AList.update k v) (spreadProps (orEmpty ex)) (fixedFields e)"
  let ?i = "strOf (ollamaModel e)"
  have en: "ollamaEntry e (orEmpty ex) = JObj ?L" by (rule ollamaEntry_fold)
  have cL: "stringifyProps ?L = ?L"
    using clean_ollamaEntry[OF cl, of e] by (simp add: en)
  from ok True obtain o1 where am: "addModel e (Some (JObj ?L)) = Inr (Some o1)" by (auto simp: en)
  let ?es = "elems (map_of ?L ''models'')"
  from am obtain b where sid: "someId ?i ?es = Inr b"
    by (auto simp: addModel_def andThen_eq_Inr dest!: elementsOf_Inr getProp_Inr)
  have ev: "entryVal e ex = o1" by (simp add: entryVal_def True en am)
  have ces: "map stringify ?es = ?es"
    using clean_lookup[OF cL, of "''models''"] by (rule clean_elems)
  show ?thesis
  proof (cases "\<exists>m \<in> set ?es. hasId ?i m")
    case ex: True
    with addModel_Inr[OF am] have o1: "o1 = JObj ?L" by simp
    have "ollamaEntry e (orEmpty (Some (JObj ?L))) = JObj ?L"
      by (rule ollamaEntry_fixpoint[OF refl])
    then have "entryVal e (Some o1) = o1"
      by (simp add: entryVal_def True o1 am[unfolded o1])
    with cL ev o1 show ?thesis by simp
  next
    case nex: False
    let ?X = "JArr (?es @ [newModelEntry e]) []"
    let ?L' = "AList.update ''models'' ?X ?L"
    from nex addModel_Inr[OF am] have o1: "o1 = JObj ?L'" by simp
    have L': "?L' = fold (\<lambda>(k, v). AList.update k v) (spreadProps (orEmpty ex) @ [(''models'', ?X)]) (fixedFields e)"
      by simp
    have fx: "ollamaEntry e (orEmpty (Some (JObj ?L'))) = JObj ?L'"
      by (rule ollamaEntry_fixpoint[OF L'])
    have cX: "stringify ?X = ?X" using ces by (simp add: stringify_newModelEntry)
    have cL': "stringifyProps ?L' = ?L'"
      by (simp add: stringifyProps_update cL ces stringify_newModelEntry)
    from sid nex someId_Inr[OF sid] have "someId ?i ?es = Inr False" by simp
    then have "someId ?i (?es @ [newModelEntry e]) = Inr True"
      using hasId_newModelEntry[of e] by (simp add: someId_append hasId_def)
    then have "addModel e (Some (JObj ?L')) = Inr (Some (JObj ?L'))"
      by (simp add: addModel_def update_conv')
    with fx have "entryVal e (Some o1) = o1"
      by (simp add: entryVal_def True o1)
    with cL' ev o1 show ?thesis by simp
  qed
qed

lemma gatewayDefaults_eq: "gatewayDefaults = [(''gateway'', gatewayDefault)]"
  by (simp add: gatewayDefault_def gatewayDefaults_def)

lemma agentDefaults_eq:
  "agentDefaults = [(''agents'', JObj [(''defaults'', JObj [(''tools'', toolsDefault)])])]"
  by (simp add: toolsDefault_def agentDefaults_def)

lemma Some_levelVal:
  "goodBase base \<Longrightarrow>
     Some (levelVal base vals cur) = withProps (base cur) (applyVals vals (propsOf (base cur)))"
proof -
  assume "goodBase base"
  then have "base cur \<noteq> None" by (simp add: goodBase_def)
  then obtain bj where bj: "base cur = Some bj" by (cases "base cur") auto
  obtain x where "withProps (Some bj) (applyVals vals (propsOf (Some bj))) = Some x"
    using withProps_Some[of bj] by blast
  then show ?thesis by (simp add: levelVal_def bj)
qed

lemma isContainer_levelVal_baseOf [simp]: "isContainer (Some (levelVal baseOf vals cur))"
  by (simp add: Some_levelVal[OF goodBase_baseOf])

lemma propsOf_levelVal_baseOf [simp]:
  "propsOf (Some (levelVal baseOf vals cur)) = applyVals vals (propsOf (baseOf cur))"
  by (simp add: Some_levelVal[OF goodBase_baseOf])

lemma agentsVal_False:
  "newVal False c (JObj [(''defaults'', JObj [(''tools'', toolsDefault)])]) = agentsVal e False c"
  by (simp add: newVal_levelVal srcVals_def agentsVal_def defaultsVal_def)

lemma mergedProps_applyVals:
  "mergedProps j = applyVals [(''gateway'', \<lambda>c. newVal True c gatewayDefault),
                              (''agents'', agentsVal e False)] (propsOf (Some j))"
  by (simp add: mergedProps_def gatewayDefaults_eq agentDefaults_eq agentsVal_False[where e=e])

lemma selectVal_update:
  assumes "isContainer df"
  shows "(if lookupPath (map_of (propsOf df) ''model'') [''primary''] \<noteq> Some (JStr (newModel e))
          then withProps df (AList.update ''model'' (JObj [(''primary'', JStr (newModel e))]) (propsOf df))
          else df)
         = withProps df (AList.update ''model'' (selectVal e (map_of (propsOf df) ''model'')) (propsOf df))"
proof (cases "lookupPath (map_of (propsOf df) ''model'') [''primary''] = Some (JStr (newModel e))")
  case True
  then obtain c where c: "map_of (propsOf df) ''model'' = Some c"
    by (cases "map_of (propsOf df) ''model''") auto
  with True show ?thesis by (simp add: selectVal_def update_triv del: lookupPath.simps)
next
  case False
  then show ?thesis by (simp add: selectVal_def del: lookupPath.simps)
qed

lemma agentsVal_select:
  defines "M0 \<equiv> \<lambda>e. JObj [(''primary'', JStr (newModel e))]"
  shows "writeBack (Some (agentsVal e False a)) ''defaults''
           (let df = orEmpty (map_of (propsOf (Some (agentsVal e False a))) ''defaults'')
            in if lookupPath (map_of (propsOf df) ''model'') [''primary''] \<noteq> Some (JStr (newModel e))
               then withProps df (AList.update ''model'' (M0 e) (propsOf df))
               else df)
         = Some (agentsVal e True a)"
proof -
  let ?d = "map_of (propsOf (baseOf a)) ''defaults''"
  let ?D = "defaultsVal e False ?d"
  have cD: "isContainer (Some ?D)" by (simp add: defaultsVal_def)
  have pD: "propsOf (Some ?D) = AList.update ''tools'' (newVal False (map_of (propsOf (baseOf ?d)) ''tools'') toolsDefault) (propsOf (baseOf ?d))"
    by (simp add: defaultsVal_def)
  have df: "orEmpty (map_of (propsOf (Some (agentsVal e False a))) ''defaults'') = Some ?D"
    using cD by (simp add: agentsVal_def update_conv')
  have D': "withProps (Some ?D) (AList.update ''model'' (selectVal e (map_of (propsOf (Some ?D)) ''model'')) (propsOf (Some ?D)))
      = Some (defaultsVal e True ?d)"
    unfolding pD
    by (simp add: defaultsVal_def Some_levelVal[OF goodBase_baseOf] update_conv')
  have "writeBack (Some (agentsVal e False a)) ''defaults'' (Some (defaultsVal e True ?d))
      = Some (agentsVal e True a)"
    by (simp add: writeBack_container agentsVal_def Some_levelVal[OF goodBase_baseOf])
  then show ?thesis
    unfolding Let_def df M0_def selectVal_update[OF cD] D' .
qed

lemma update_absorb:
  "k \<noteq> k' \<Longrightarrow> AList.update k v (AList.update k' v' (AList.update k v0 al))
     = AList.update k' v' (AList.update k v al)"
  by (induction al) auto

lemma Some_levelVal_orEmpty:
  "Some (levelVal orEmpty vals cur) = withProps (orEmpty cur) (applyVals vals (propsOf (orEmpty cur)))"
  by (rule Some_levelVal[OF goodBase_orEmpty])

lemma main_topVals:
  assumes "main e j = Inr c'"
  shows "c' = Some (levelVal baseOf (topVals e) (Some j)) \<and> isContainer (Some j) \<and>
         (enabled e \<and> truthyStr (ollamaModel e) \<longrightarrow>
            (\<exists>o1. addModel e (Some (ollamaEntry e (orEmpty (entryOf j)))) = Inr (Some o1)))"
proof -
  have cj: "isContainer (Some j)" using assms by (rule main_Inr_container)
  let ?kvs = "propsOf (Some j)"
  let ?G = "newVal True (map_of ?kvs ''gateway'') gatewayDefault"
  let ?Lg = "AList.update ''gateway'' ?G ?kvs"
  let ?a = "map_of ?kvs ''agents''"
  let ?A = "agentsVal e False ?a"
  let ?L2 = "AList.update ''agents'' ?A ?Lg"
  have mp: "mergedProps j = ?L2"
    by (simp add: mergedProps_applyVals[where e=e] update_conv')
  have goal1: "Some (levelVal baseOf (topVals e) (Some j)) = withProps (Some j) (applyVals (topVals e) ?kvs)"
    using cj by (simp add: Some_levelVal[OF goodBase_baseOf] baseOf_def)
  define c2 where "c2 = withProps (Some j) ?L2"
  have c2c: "isContainer c2" and c2p: "propsOf c2 = ?L2" using cj by (simp_all add: c2_def)
  have mn: "main e j = (if enabled e then provision e c2 else Inr c2)"
    using cj by (simp add: main_container' enabled_def mp c2_def)
  show ?thesis
  proof (cases "enabled e")
    case False
    then have "c' = c2" using assms mn by simp
    moreover have "applyVals (topVals e) ?kvs = ?L2"
      using False by (simp add: topVals_def update_conv')
    ultimately show ?thesis using goal1 cj False by (simp add: c2_def)
  next
    case True
    then have pr: "provision e c2 = Inr c'"
      using assms mn by simp
    let ?m = "map_of ?kvs ''models''"
    define ms where "ms = orEmpty ?m"
    define pv where "pv = orEmpty (map_of (propsOf ms) ''providers'')"
    have ms2: "orEmpty (map_of (propsOf c2) ''models'') = ms"
      by (simp add: c2p ms_def update_conv')
    note pp = provision_prefix[OF pr, unfolded ms2, folded pv_def]
    from pp have cms: "isContainer ms" and pvn: "pv \<noteq> None" by blast+
    have eo: "entryOf j = map_of (propsOf pv) ''ollama''"
      by (simp add: entryOf_def pv_def ms_def)
    let ?E = "entryVal e (map_of (propsOf pv) ''ollama'')"
    let ?P = "providersVal e (map_of (propsOf ms) ''providers'')"
    let ?M = "modelsVal e ?m"
    have P: "withProps pv (AList.update ''ollama'' ?E (propsOf pv)) = Some ?P"
      by (simp add: providersVal_def Some_levelVal_orEmpty pv_def)
    have M: "writeBack ms ''providers'' (Some ?P) = Some ?M"
      using cms by (simp add: writeBack_container modelsVal_def Some_levelVal_orEmpty ms_def)
    have cM: "writeBack c2 ''models'' (Some ?M) = withProps (Some j) (AList.update ''models'' ?M ?L2)"
      using c2c cj by (simp add: writeBack_container c2p) (simp add: c2_def)
    show ?thesis
    proof (cases "truthyStr (ollamaModel e)")
      case False
      with pp have "c' = writeBack c2 ''models'' (writeBack ms ''providers''
          (withProps pv (AList.update ''ollama'' (ollamaEntry e (orEmpty (map_of (propsOf pv) ''ollama''))) (propsOf pv))))"
        by simp
      also have "ollamaEntry e (orEmpty (map_of (propsOf pv) ''ollama'')) = ?E"
        using False by (simp add: entryVal_def)
      finally have "c' = withProps (Some j) (AList.update ''models'' ?M ?L2)"
        by (simp add: P M cM)
      moreover have "applyVals (topVals e) ?kvs = AList.update ''models'' ?M ?L2"
        using True False by (simp add: topVals_def update_conv')
      ultimately show ?thesis using goal1 cj False by simp
    next
      case mdl: True
      with pp obtain o1 where
        am: "addModel e (Some (ollamaEntry e (orEmpty (map_of (propsOf pv) ''ollama'')))) = Inr (Some o1)"
        and sd: "setDefaultModel e (writeBack c2 ''models'' (writeBack ms ''providers''
                 (withProps pv (AList.update ''ollama'' o1 (propsOf pv))))) = Inr c'"
        by auto
      have "o1 = ?E" using am mdl by (simp add: entryVal_def)
      with sd have sd': "setDefaultModel e (withProps (Some j) (AList.update ''models'' ?M ?L2)) = Inr c'"
        by (simp add: P M cM)
      define cM' where "cM' = withProps (Some j) (AList.update ''models'' ?M ?L2)"
      have cMc: "isContainer cM'" and cMp: "propsOf cM' = AList.update ''models'' ?M ?L2"
        using cj by (simp_all add: cM'_def)
      have ag: "orEmpty (map_of (propsOf cM') ''agents'') = Some ?A"
        by (simp add: cMp update_conv' agentsVal_def)
      from setDefaultModel_shape[OF sd'[folded cM'_def], unfolded ag]
      have "c' = writeBack cM' ''agents'' (Some (agentsVal e True ?a))"
        using agentsVal_select[of e ?a] by (simp add: Let_def del: lookupPath.simps)
      then have "c' = withProps (Some j) (AList.update ''agents'' (agentsVal e True ?a)
                        (AList.update ''models'' ?M ?L2))"
        using cMc cj by (simp add: writeBack_container cMp) (simp add: cM'_def)
      also have "AList.update ''agents'' (agentsVal e True ?a) (AList.update ''models'' ?M ?L2)
          = AList.update ''models'' ?M (AList.update ''agents'' (agentsVal e True ?a) ?Lg)"
        by (rule update_absorb) simp
      finally have "c' = withProps (Some j) (AList.update ''models'' ?M (AList.update ''agents'' (agentsVal e True ?a) ?Lg))" .
      moreover have "applyVals (topVals e) ?kvs
          = AList.update ''models'' ?M (AList.update ''agents'' (agentsVal e True ?a) ?Lg)"
        using True mdl by (simp add: topVals_def update_conv')
      ultimately show ?thesis using goal1 cj am eo by simp
    qed
  qed
qed

lemma clean_Some_lookup: "clean v \<Longrightarrow> clean (map_of (propsOf v) k)"
  by (simp add: clean_lookup clean_props)

lemma clean_baseOf: "clean v \<Longrightarrow> clean (baseOf v)"
  by (auto simp: baseOf_def clean_def)

lemma clean_orEmpty: "clean v \<Longrightarrow> clean (orEmpty v)"
  by (auto simp: orEmpty_def clean_def)

lemma selectVal_idem: "clean cur \<Longrightarrow> idemAt (selectVal e) cur"
proof (cases "lookupPath cur [''primary''] = Some (JStr (newModel e))")
  case True
  assume cl: "clean cur"
  from True obtain c where c: "cur = Some c" by (cases cur) auto
  with cl have "stringify c = c" by (simp add: clean_def)
  with True c show ?thesis by (simp add: idemAt_def selectVal_def del: lookupPath.simps)
next
  case False
  then show ?thesis by (simp add: idemAt_def selectVal_def stringifyProps_def)
qed

lemma distinctKeys_toolsDefault: "distinctKeys toolsDefault"
  by (simp add: toolsDefault_def agentDefaults_def)

lemma distinctKeys_gatewayDefault: "distinctKeys gatewayDefault"
  by (simp add: gatewayDefault_def gatewayDefaults_def)

lemma defaultsVal_idem: "clean cur \<Longrightarrow> idemAt (defaultsVal e sel) cur"
  unfolding defaultsVal_def
  by (rule level_idem[OF goodBase_baseOf])
    (auto simp: newVal_idem distinctKeys_toolsDefault selectVal_idem clean_Some_lookup clean_baseOf)

lemma agentsVal_idem: "clean cur \<Longrightarrow> idemAt (agentsVal e sel) cur"
  unfolding agentsVal_def
  by (rule level_idem[OF goodBase_baseOf])
    (auto simp: defaultsVal_idem clean_Some_lookup clean_baseOf)

lemma entryVal_idem:
  assumes "clean ex"
    and "truthyStr (ollamaModel e) \<longrightarrow> (\<exists>o1. addModel e (Some (ollamaEntry e (orEmpty ex))) = Inr (Some o1))"
  shows "idemAt (entryVal e) ex"
  using entryVal_props[OF assms] by (simp add: idemAt_def)

lemma providersVal_idem:
  assumes "clean cur"
    and "truthyStr (ollamaModel e) \<longrightarrow> (\<exists>o1. addModel e (Some (ollamaEntry e
           (orEmpty (map_of (propsOf (orEmpty cur)) ''ollama'')))) = Inr (Some o1))"
  shows "idemAt (providersVal e) cur"
  unfolding providersVal_def
  by (rule level_idem[OF goodBase_orEmpty assms(1)])
    (use assms in \<open>auto intro!: entryVal_idem simp: clean_Some_lookup clean_orEmpty\<close>)

lemma modelsVal_idem:
  assumes "clean cur"
    and "truthyStr (ollamaModel e) \<longrightarrow> (\<exists>o1. addModel e (Some (ollamaEntry e
           (orEmpty (map_of (propsOf (orEmpty (map_of (propsOf (orEmpty cur)) ''providers''))) ''ollama'')))) = Inr (Some o1))"
  shows "idemAt (modelsVal e) cur"
  unfolding modelsVal_def
  by (rule level_idem[OF goodBase_orEmpty assms(1)])
    (use assms in \<open>auto intro!: providersVal_idem simp: clean_Some_lookup clean_orEmpty\<close>)

lemma main_idem:
  assumes "main e j = Inr (Some c)" and "stringify j = j" and "main e (stringify c) = Inr (Some c2)"
  shows "stringify c2 = stringify c"
proof -
  note t1 = main_topVals[OF assms(1)]
  note t2 = main_topVals[OF assms(3)]
  have cl: "clean (Some j)" using assms(2) by (simp add: clean_def)
  have cj: "isContainer (Some j)" using t1 by simp
  have "idemAt (levelVal baseOf (topVals e)) (Some j)"
  proof (rule level_idem[OF goodBase_baseOf cl])
    show "distinct (map fst (topVals e))" by (simp add: topVals_def)
    have m: "enabled e \<Longrightarrow> idemAt (modelsVal e) (map_of (propsOf (Some j)) ''models'')"
      using t1 by (intro modelsVal_idem clean_Some_lookup cl) (auto simp: entryOf_def)
    show "\<forall>(k, val)\<in>set (topVals e). idemAt val (map_of (propsOf (baseOf (Some j))) k)"
      using cj m cl
      by (auto simp: topVals_def baseOf_def newVal_idem distinctKeys_gatewayDefault
          agentsVal_idem clean_Some_lookup)
  qed
  with t1 t2 show ?thesis by (simp add: idemAt_def)
qed

lemma baseOf_notArray: "notArray v \<Longrightarrow> \<exists>ps. baseOf v = Some (JObj ps)"
  by (cases v rule: truthy.cases) (simp_all add: baseOf_def)

lemma levelVal_notArray:
  assumes "notArray v"
  shows "\<exists>ps. baseOf v = Some (JObj ps) \<and> levelVal baseOf vals v = JObj (applyVals vals ps)"
proof -
  from baseOf_notArray[OF assms] obtain ps where "baseOf v = Some (JObj ps)" ..
  then show ?thesis by (simp add: levelVal_def)
qed

lemma lookupPath_propsOf_baseOf:
  "map_of (propsOf (baseOf v)) k = lookupPath v [k]"
  by (cases v rule: truthy.cases) (simp_all add: baseOf_def)

lemma persisted_model:
  assumes "main e j = Inr c'" and "isMapping j"
    and "notArray (lookupPath (Some j) [''agents''])"
    and "notArray (lookupPath (Some j) [''agents'', ''defaults''])"
  shows "lookupPath (run e (Some j)) modelPath = map_option stringify (lookupPath c' modelPath)"
proof -
  from assms(2) obtain kvs where j: "j = JObj kvs" by (cases j) auto
  let ?sel = "enabled e \<and> truthyStr (ollamaModel e)"
  let ?L = "applyVals (topVals e) kvs"
  from main_topVals[OF assms(1)] have c': "c' = Some (JObj ?L)"
    by (simp add: j levelVal_def baseOf_def)
  have r: "run e (Some j) = Some (JObj (stringifyProps ?L))"
    using assms(1) c' by (simp add: run_def)
  let ?a = "map_of kvs ''agents''"
  have la: "map_of ?L ''agents'' = Some (agentsVal e ?sel ?a)"
    by (rule applyVals_key) (simp_all add: topVals_def)
  have na: "notArray ?a" using assms(3) by (simp add: j)
  from levelVal_notArray[OF na] obtain pa where pa: "baseOf ?a = Some (JObj pa)"
    and A: "agentsVal e ?sel ?a = JObj (applyVals [(''defaults'', defaultsVal e ?sel)] pa)"
    unfolding agentsVal_def by blast
  let ?d = "map_of pa ''defaults''"
  have "?d = lookupPath ?a [''defaults'']"
    using lookupPath_propsOf_baseOf[of ?a "''defaults''"] pa by simp
  then have nd: "notArray ?d" using assms(4) by (simp add: j)
  from levelVal_notArray[OF nd] obtain pd where
    D: "defaultsVal e ?sel ?d = JObj (applyVals ((''tools'', \<lambda>c. newVal False c toolsDefault)
                      # (if ?sel then [(''model'', selectVal e)] else [])) pd)"
    unfolding defaultsVal_def by blast
  let ?LA = "applyVals [(''defaults'', defaultsVal e ?sel)] pa"
  let ?LD = "applyVals ((''tools'', \<lambda>c. newVal False c toolsDefault)
                      # (if ?sel then [(''model'', selectVal e)] else [])) pd"
  have ld: "map_of ?LA ''defaults'' = Some (JObj ?LD)"
    by (simp add: update_conv' D)
  have "lookupPath c' modelPath = map_of ?LD ''model''"
    unfolding c' modelPath_def by (simp add: la A ld del: applyVals_Cons)
  moreover have "lookupPath (run e (Some j)) modelPath = map_option stringify (map_of ?LD ''model'')"
    unfolding r modelPath_def
    by (simp add: map_of_stringifyProps la A ld del: applyVals_Cons)
  ultimately show ?thesis by simp
qed

lemma clean_lookupPath: "clean v \<Longrightarrow> clean (lookupPath v p)"
proof (induction p arbitrary: v)
  case Nil
  then show ?case by simp
next
  case (Cons k ks)
  show ?case
  proof (cases "getProp v k")
    case (Inl a)
    then show ?thesis by simp
  next
    case (Inr c)
    then have "c = map_of (propsOf v) k" by (rule getProp_Inr)
    then have "clean c" using Cons.prems by (simp add: clean_Some_lookup)
    with Cons.IH[of c] Inr show ?thesis by simp
  qed
qed

lemma parsed_lookupPath:
  "parsed j \<Longrightarrow> lookupPath (Some j) p = Some x \<Longrightarrow> parsed x"
proof (induction p arbitrary: j)
  case Nil then show ?case by simp
next
  case (Cons k ks)
  show ?case
  proof (cases j)
    case (JObj kvs)
    with Cons.prems obtain c where c: "map_of kvs k = Some c" "lookupPath (Some c) ks = Some x"
      by (cases "map_of kvs k"; cases ks) auto
    then have "c \<in> snd ` set kvs" by (metis map_of_SomeD snd_conv image_eqI)
    with Cons.prems(1) JObj have "parsed c" by auto
    from Cons.IH[OF this c(2)] show ?thesis .
  next
    case (JArr es ps)
    with Cons.prems show ?thesis by (cases ks) auto
  qed (use Cons.prems in \<open>cases ks; auto\<close>)+
qed

lemma parsed_stringify_prop:
  assumes "parsed x" and "map_of (propsOf (Some x)) k = Some (JStr s)"
  shows "map_of (propsOf (Some (stringify x))) k = Some (JStr s)"
proof (cases x)
  case (JObj kvs)
  have "map_of (stringifyProps kvs) k = map_option stringify (map_of kvs k)"
    by (induction kvs) (auto simp: stringifyProps_def)
  with assms JObj show ?thesis by (simp add: stringify_JObj)
qed (use assms in auto)

text \<open>What \<open>clean\<close> says of a document, spelled out.\<close>

lemma stringifyProps_id_iff:
  "stringifyProps kvs = kvs \<longleftrightarrow> (\<forall>v \<in> snd ` set kvs. stringify v = v)"
  by (induction kvs) (auto simp: stringifyProps_def)

lemma clean_iff: "clean (Some j) \<longleftrightarrow> parsed j \<and> finiteNumbers j"
proof (induction j)
  case (JArr es ps)
  have "map stringify es = es \<longleftrightarrow> (\<forall>v \<in> set es. stringify v = v)" by (induction es) auto
  with JArr show ?case by (auto simp: clean_def)
next
  case (JObj kvs)
  then show ?case
    by (auto simp: clean_def stringify_JObj stringifyProps_id_iff; force)
qed (simp_all add: clean_def)
section \<open>The merge engine: claims\<close>

text \<open>
  Claim C4. For a source entry whose value is a scalar or a sequence, \<open>deepMerge\<close> stores
  the source value under the key only when the target has no value there; a value that is
  present, \<^verbatim>\<open>null\<close> and \<^verbatim>\<open>false\<close> included, stays as it is. The source has ordinary
  names only, as the two sources of the script have: under a reserved name such as
  \<^verbatim>\<open>toString\<close> the test \<^verbatim>\<open>target[key] === undefined\<close> finds the inherited member and
  nothing is stored, which \<open>getProp\<close> does not follow.
\<close>

theorem deepMerge_sets_only_absent:
  assumes "ordinaryKeys (JObj src)" and "distinct (map fst src)"
    and "(k, sv) \<in> set src" and "\<not> isMapping sv"
  shows "\<exists>kvs'. deepMerge (Some (JObj kvs)) src = Inr (Some (JObj kvs')) \<and>
           map_of kvs' k = Some (case map_of kvs k of None \<Rightarrow> sv | Some v \<Rightarrow> v)"
  using assms
  by (simp add: deepMerge_container mergeProps_key newVal_scalar split: option.splits)

theorem deepMerge_sets_only_absent_witness:
  "ordinaryKeys (JObj [(''a'', JNum 1), (''b'', JArr [JNum 2] []), (''c'', JStr ''x'')]) \<and>
   deepMerge (Some (JObj [(''a'', JNull), (''b'', JBool False)]))
      [(''a'', JNum 1), (''b'', JArr [JNum 2] []), (''c'', JStr ''x'')]
    = Inr (Some (JObj [(''a'', JNull), (''b'', JBool False), (''c'', JStr ''x'')]))"
  using deepMerge_sets_only_absent[of "[(''a'', JNum 1), (''b'', JArr [JNum 2] []), (''c'', JStr ''x'')]"
      "''a''" "JNum 1" "[(''a'', JNull), (''b'', JBool False)]"]
  by (simp add: ordinaryName_def reservedNames_def)



text \<open>
  Claim C2. The claim says that a target value which is a sequence is replaced by an empty
  mapping before the recursion. Both merges test the target with
  \<^verbatim>\<open>typeof target[key] !== 'object'\<close>, which an array passes: the array is kept, the
  source entries become named properties of it, and they are gone once the document is
  written.
\<close>

theorem merge_keeps_sequence_target:
  "forceMerge (Some (JObj [(''gateway'', JArr [JNum 1] [])])) gatewayDefaults
     = Inr (Some (JObj [(''gateway'', JArr [JNum 1]
         [(''mode'', JStr ''local''), (''bind'', JStr ''lan''),
          (''controlUi'', JObj [(''allowInsecureAuth'', JBool True)]),
          (''auth'', JObj [(''mode'', JStr ''token'')])])]))
   \<and> deepMerge (Some (JObj [(''a'', JArr [JNum 1] [])])) [(''a'', JObj [(''b'', JNum 2)])]
     = Inr (Some (JObj [(''a'', JArr [JNum 1] [(''b'', JNum 2)])]))
   \<and> stringify (JObj [(''gateway'', JArr [JNum 1]
         [(''mode'', JStr ''local''), (''bind'', JStr ''lan''),
          (''controlUi'', JObj [(''allowInsecureAuth'', JBool True)]),
          (''auth'', JObj [(''mode'', JStr ''token'')])])])
     = JObj [(''gateway'', JArr [JNum 1] [])]"
  by (simp add: gatewayDefaults_def stringifyProps_def)

section \<open>Provisioning: claims\<close>

text \<open>
  Claim C1. The claim says that after a run with both variables set the provider entry
  has \<open>api = "openai-completions"\<close> whatever was there before. The object literal of lines
  136 to 142 spreads the existing entry last, so every field of the existing entry wins
  over the four fixed ones: a stored \<open>"openai-responses"\<close> stays.
\<close>

theorem stale_api_survives_run:
  "lookupPath (run envFull (Some staleDoc)) [''models'', ''providers'', ''ollama'', ''api'']
     = Some (JStr ''openai-responses'')"
  by code_simp

text \<open>
  Claim C9. When exactly one of the base URL and the API key is truthy, \<open>main\<close> returns
  what the two default merges produce and nothing else: the run succeeds on every object
  document, and whatever was stored under \<^verbatim>\<open>models\<close>, nothing or a provider entry of an
  earlier run, is what is stored there afterwards.
\<close>

theorem partial_environment_skips_provisioning:
  assumes "truthyStr (ollamaUrl e) \<noteq> truthyStr (ollamaKey e)"
  shows "\<exists>kvs'. main e (JObj kvs) = Inr (Some (JObj kvs')) \<and>
           andThen (forceMerge (Some (JObj kvs)) gatewayDefaults)
             (\<lambda>c1. deepMerge c1 agentDefaults) = Inr (Some (JObj kvs')) \<and>
           map_of kvs' ''models'' = map_of kvs ''models''"
  using assms
  by (auto simp: main_container forceMerge_container deepMerge_container defaults_frame Let_def)

theorem partial_environment_skips_provisioning_witness:
  "\<exists>kvs'. main \<lparr>ollamaUrl = Some ''http://172.17.0.1:11434/v1'', ollamaKey = None,
                ollamaModel = Some ''m'', contextWindowEnv = None\<rparr> (JObj []) = Inr (Some (JObj kvs')) \<and>
     andThen (forceMerge (Some (JObj [])) gatewayDefaults)
             (\<lambda>c1. deepMerge c1 agentDefaults) = Inr (Some (JObj kvs')) \<and>
     map_of kvs' ''models'' = None"
  using partial_environment_skips_provisioning[of
     "\<lparr>ollamaUrl = Some ''http://172.17.0.1:11434/v1'', ollamaKey = None,
                ollamaModel = Some ''m'', contextWindowEnv = None\<rparr>" "[]"]
  by simp

text \<open>
  Claim C6. A run of the provisioning block with a model id leaves the model sequence of
  the provider entry as it was when some element already has that id, and otherwise appends
  the new entry after the elements that were there. The number of elements with that id
  afterwards is the number before, or one when there was none, and provisioning the result
  again does not change the sequence. The provider entry is taken not to repeat a key, as
  in every parsed document.
\<close>

theorem provisioning_appends_model_once:
  assumes "provision e c = Inr c'" and "truthyStr (ollamaModel e)"
    and "distinct (map fst (propsOf (lookupPath c ollamaPath)))"
  shows "lookupPath c' modelsPath =
           (if \<exists>m \<in> set (elems (lookupPath c modelsPath)). hasId (strOf (ollamaModel e)) m
            then lookupPath c modelsPath
            else Some (JArr (elems (lookupPath c modelsPath) @ [newModelEntry e]) []))
         \<and> length (filter (hasId (strOf (ollamaModel e))) (elems (lookupPath c' modelsPath)))
             = max 1 (length (filter (hasId (strOf (ollamaModel e))) (elems (lookupPath c modelsPath))))
         \<and> (\<forall>c''. provision e c' = Inr c'' \<longrightarrow> lookupPath c'' modelsPath = lookupPath c' modelsPath)"
proof -
  let ?i = "strOf (ollamaModel e)"
  let ?es = "elems (lookupPath c modelsPath)"
  note p1 = provision_models[OF assms]
  then have a: "lookupPath c' modelsPath =
           (if \<exists>m \<in> set ?es. hasId ?i m then lookupPath c modelsPath
            else Some (JArr (?es @ [newModelEntry e]) []))"
    and d: "distinct (map fst (propsOf (lookupPath c' ollamaPath)))" by blast+
  have ex': "\<exists>m \<in> set (elems (lookupPath c' modelsPath)). hasId ?i m"
    using a hasId_newModelEntry[of e] by (cases "\<exists>m \<in> set ?es. hasId ?i m") auto
  have cnt: "length (filter (hasId ?i) (elems (lookupPath c' modelsPath)))
             = max 1 (length (filter (hasId ?i) ?es))"
  proof (cases "\<exists>m \<in> set ?es. hasId ?i m")
    case True
    then have "filter (hasId ?i) ?es \<noteq> []" by (simp add: filter_empty_conv)
    then have "1 \<le> length (filter (hasId ?i) ?es)" by (cases "filter (hasId ?i) ?es") auto
    with True a show ?thesis by simp
  next
    case False
    then have "filter (hasId ?i) ?es = []" by (simp add: filter_empty_conv)
    with False a hasId_newModelEntry[of e] show ?thesis by simp
  qed
  have "lookupPath c'' modelsPath = lookupPath c' modelsPath" if "provision e c' = Inr c''" for c''
    using provision_models[OF that assms(2) d] ex' by simp
  with a cnt show ?thesis by blast
qed

theorem provisioning_appends_model_once_witness:
  "\<exists>c'. provision envFull (Some (JObj [])) = Inr c' \<and>
     lookupPath c' modelsPath = Some (JArr [newModelEntry envFull] []) \<and>
     length (filter (hasId ''qwen2.5-coder:32b'') (elems (lookupPath c' modelsPath))) = 1 \<and>
     (\<forall>c''. provision envFull c' = Inr c'' \<longrightarrow> lookupPath c'' modelsPath = lookupPath c' modelsPath)"
proof -
  from provision_empty_ok obtain c' where c': "provision envFull (Some (JObj [])) = Inr c'" ..
  have m: "truthyStr (ollamaModel envFull)" by (simp add: envFull_def)
  have d: "distinct (map fst (propsOf (lookupPath (Some (JObj [])) ollamaPath)))"
    by (simp add: ollamaPath_def)
  have i: "strOf (ollamaModel envFull) = ''qwen2.5-coder:32b''" by (simp add: envFull_def)
  have l: "lookupPath (Some (JObj [])) modelsPath = None" by (simp add: modelsPath_def)
  from provisioning_appends_model_once[OF c' m d] c' hasId_newModelEntry[of envFull]
  show ?thesis
    unfolding i l by (intro exI[of _ c']) simp
qed

text \<open>
  Claim C5, as stated, has the selector overwritten in the persisted tree in every run
  with the URL, the key and a model id set. Two runs do not: on \<^verbatim>\<open>{"agents": []}\<close> the
  run completes, the selector becomes a named property of the array and the written
  document has no selector; on a document whose selector is \<^verbatim>\<open>{"toString": 0}\<close> the log
  line of lines 176 to 177 throws after the assignment, the handler of lines 218 to 224
  takes over and the file stays as it was.
\<close>

theorem selector_not_persisted_counterexample:
  "run envB (Some arrayDoc) \<noteq> Some arrayDoc \<and>
   lookupPath (run envB (Some arrayDoc)) [''agents'', ''defaults'', ''model'', ''primary''] = None \<and>
   run envB (Some toStringDoc) = Some toStringDoc \<and>
   lookupPath (run envB (Some toStringDoc)) [''agents'', ''defaults'', ''model'', ''primary'']
     = Some (JObj [(''toString'', JNum 0)])"
  by code_simp

text \<open>
  Claim C5, amended. When \<open>main\<close> returns, with the URL, the key and a model id set, the
  tree handed to \<^verbatim>\<open>JSON.stringify\<close> has \<^verbatim>\<open>agents.defaults.model.primary\<close> equal to
  \<open>"ollama/" + id\<close>, whatever the document selected before; when the document already had
  that selector, the mapping under \<^verbatim>\<open>agents.defaults.model\<close> is the one it had. The
  written document shows the selector for every parsed object document whose
  \<^verbatim>\<open>agents\<close> and \<^verbatim>\<open>agents.defaults\<close> are not arrays.
\<close>

theorem env_model_becomes_default:
  assumes "main e j = Inr c'" and "truthyStr (ollamaUrl e)" and "truthyStr (ollamaKey e)"
    and "truthyStr (ollamaModel e)"
  shows "lookupPath c' [''agents'', ''defaults'', ''model'', ''primary''] = Some (JStr (newModel e))
     \<and> (lookupPath (Some j) [''agents'', ''defaults'', ''model'', ''primary''] = Some (JStr (newModel e))
          \<longrightarrow> lookupPath c' [''agents'', ''defaults'', ''model'']
                = lookupPath (Some j) [''agents'', ''defaults'', ''model''])
     \<and> (parsed j \<and> isMapping j \<and> notArray (lookupPath (Some j) [''agents''])
            \<and> notArray (lookupPath (Some j) [''agents'', ''defaults''])
          \<longrightarrow> lookupPath (run e (Some j)) [''agents'', ''defaults'', ''model'', ''primary'']
                = Some (JStr (newModel e)))"
proof -
  note m = main_model_lookup[OF assms]
  have s: "lookupPath v [''agents'', ''defaults'', ''model'', ''primary'']
      = map_of (propsOf (lookupPath v [''agents'', ''defaults'', ''model''])) ''primary''" for v
    using lookupPath_append[of v "[''agents'', ''defaults'', ''model'']" "[''primary'']"]
    by (simp only: lookupPath_single append.simps)
  have a: "map_of (propsOf (lookupPath c' [''agents'', ''defaults'', ''model''])) ''primary''
       = Some (JStr (newModel e))"
    using m unfolding s by simp
  have b: "lookupPath (Some j) [''agents'', ''defaults'', ''model'', ''primary''] = Some (JStr (newModel e))
          \<longrightarrow> lookupPath c' [''agents'', ''defaults'', ''model'']
                = lookupPath (Some j) [''agents'', ''defaults'', ''model'']"
    using m unfolding s by simp
  have c: "map_of (propsOf (lookupPath (run e (Some j)) [''agents'', ''defaults'', ''model''])) ''primary''
                = Some (JStr (newModel e))"
    if cl: "parsed j" and h: "isMapping j" "notArray (lookupPath (Some j) [''agents''])"
      "notArray (lookupPath (Some j) [''agents'', ''defaults''])"
  proof -
    have p: "lookupPath (run e (Some j)) [''agents'', ''defaults'', ''model'']
        = map_option stringify (lookupPath c' [''agents'', ''defaults'', ''model''])"
      using persisted_model[OF assms(1) h] by (simp only: modelPath_def)
    from a obtain x where x: "lookupPath c' [''agents'', ''defaults'', ''model''] = Some x"
      by (cases "lookupPath c' [''agents'', ''defaults'', ''model'']") simp_all
    have "parsed x"
    proof (cases "lookupPath (Some j) [''agents'', ''defaults'', ''model'', ''primary'']
           = Some (JStr (newModel e))")
      case True
      with m x have "lookupPath (Some j) [''agents'', ''defaults'', ''model''] = Some x"
        by (simp del: lookupPath.simps)
      with cl show ?thesis by (rule parsed_lookupPath)
    next
      case False
      with m x have "x = JObj [(''primary'', JStr (newModel e))]" by (simp del: lookupPath.simps)
      then show ?thesis by simp
    qed
    from parsed_stringify_prop[OF this] a x
    have "map_of (propsOf (Some (stringify x))) ''primary'' = Some (JStr (newModel e))"
      by (simp del: lookupPath.simps)
    with p x show ?thesis by (simp only: option.map)
  qed
  show ?thesis unfolding s using a b[unfolded s] c by blast
qed

theorem env_model_becomes_default_witness:
  "\<exists>c'. main envB docA = Inr c' \<and>
     lookupPath (Some docA) [''agents'', ''defaults'', ''model'', ''primary''] = Some (JStr ''ollama/modelA'') \<and>
     lookupPath c' [''agents'', ''defaults'', ''model'', ''primary''] = Some (JStr ''ollama/modelB'') \<and>
     lookupPath (run envB (Some docA)) [''agents'', ''defaults'', ''model'', ''primary'']
       = Some (JStr ''ollama/modelB'')"
proof -
  from main_envB_docA_ok obtain c' where c': "main envB docA = Inr c'" ..
  have t: "truthyStr (ollamaUrl envB)" "truthyStr (ollamaKey envB)" "truthyStr (ollamaModel envB)"
    by (simp_all add: envB_def)
  have n: "newModel envB = ''ollama/modelB''" by (simp add: newModel_def envB_def)
  have a: "lookupPath (Some docA) [''agents'', ''defaults'', ''model'', ''primary''] = Some (JStr ''ollama/modelA'')"
    by (simp add: docA_def)
  have h: "parsed docA \<and> isMapping docA \<and> notArray (lookupPath (Some docA) [''agents''])
            \<and> notArray (lookupPath (Some docA) [''agents'', ''defaults''])"
    by (simp add: docA_def)
  from env_model_becomes_default[OF c' t] c' a h show ?thesis
    unfolding n by (intro exI[of _ c']) blast
qed

text \<open>
  Claim C10. When the selector in the document differs from the one wanted, the whole mapping
  under \<^verbatim>\<open>agents.defaults.model\<close> becomes the object with the single key \<open>primary\<close>:
  its other fields are gone, in the tree that is written and, when \<^verbatim>\<open>agents\<close> and
  \<^verbatim>\<open>agents.defaults\<close> are not arrays, in the written document. The update is that of a
  run in which \<open>main\<close> returns: when the log line after the assignment throws, nothing is
  written.
\<close>

theorem default_model_mapping_replaced:
  assumes "main e j = Inr c'" and "truthyStr (ollamaUrl e)" and "truthyStr (ollamaKey e)"
    and "truthyStr (ollamaModel e)"
    and "lookupPath (Some j) [''agents'', ''defaults'', ''model'', ''primary''] \<noteq> Some (JStr (newModel e))"
  shows "lookupPath c' [''agents'', ''defaults'', ''model'']
           = Some (JObj [(''primary'', JStr (newModel e))])
     \<and> (isMapping j \<and> notArray (lookupPath (Some j) [''agents''])
            \<and> notArray (lookupPath (Some j) [''agents'', ''defaults''])
          \<longrightarrow> lookupPath (run e (Some j)) [''agents'', ''defaults'', ''model'']
                = Some (JObj [(''primary'', JStr (newModel e))]))"
proof -
  have a: "lookupPath c' [''agents'', ''defaults'', ''model'']
           = Some (JObj [(''primary'', JStr (newModel e))])"
    using main_model_lookup[OF assms(1-4)] assms(5) by (simp del: lookupPath.simps)
  have "lookupPath (run e (Some j)) [''agents'', ''defaults'', ''model'']
                = Some (JObj [(''primary'', JStr (newModel e))])"
    if h: "isMapping j" "notArray (lookupPath (Some j) [''agents''])"
      "notArray (lookupPath (Some j) [''agents'', ''defaults''])"
    using persisted_model[OF assms(1) h] a
    by (simp only: modelPath_def option.map stringify_JObj) (simp add: stringifyProps_def)
  with a show ?thesis by blast
qed

theorem default_model_mapping_replaced_witness:
  "\<exists>c'. main envB docA = Inr c' \<and>
     lookupPath (Some docA) [''agents'', ''defaults'', ''model'']
       = Some (JObj [(''primary'', JStr ''ollama/modelA''), (''fallback'', JStr ''ollama/modelC'')]) \<and>
     lookupPath c' [''agents'', ''defaults'', ''model'']
       = Some (JObj [(''primary'', JStr ''ollama/modelB'')]) \<and>
     lookupPath (run envB (Some docA)) [''agents'', ''defaults'', ''model'']
       = Some (JObj [(''primary'', JStr ''ollama/modelB'')])"
proof -
  from main_envB_docA_ok obtain c' where c': "main envB docA = Inr c'" ..
  have t: "truthyStr (ollamaUrl envB)" "truthyStr (ollamaKey envB)" "truthyStr (ollamaModel envB)"
    by (simp_all add: envB_def)
  have n: "newModel envB = ''ollama/modelB''" by (simp add: newModel_def envB_def)
  have a: "lookupPath (Some docA) [''agents'', ''defaults'', ''model'', ''primary''] \<noteq> Some (JStr (newModel envB))"
    by (simp add: docA_def n)
  have b: "lookupPath (Some docA) [''agents'', ''defaults'', ''model'']
       = Some (JObj [(''primary'', JStr ''ollama/modelA''), (''fallback'', JStr ''ollama/modelC'')])"
    by (simp add: docA_def)
  have h: "isMapping docA \<and> notArray (lookupPath (Some docA) [''agents''])
            \<and> notArray (lookupPath (Some docA) [''agents'', ''defaults''])"
    by (simp add: docA_def)
  from default_model_mapping_replaced[OF c' t a] c' b h show ?thesis
    unfolding n by (intro exI[of _ c']) blast
qed

text \<open>
  Claim C8, as stated, takes the context window from the environment whenever the value
  parses as a number. \<^verbatim>\<open>parseInt(...) || 32768\<close> also replaces a parsed \<open>0\<close>: with
  \<^verbatim>\<open>OLLAMA_CONTEXT_WINDOW=0\<close> the appended entry has context window 32768 and
  \<open>maxTokens\<close> 8192, not \<open>0\<close> and \<open>min(8192, floor(0 / 4)) = 0\<close>.
\<close>

theorem zero_context_window_counterexample:
  "contextWindowEnv envZero = Some 0 \<and>
   addModel envZero (Some (JObj [])) =
     Inr (Some (JObj [(''models'', JArr [JObj [(''id'', JStr ''modelB''),
        (''name'', JStr ''Ollama - modelB''), (''reasoning'', JBool False),
        (''input'', JArr [JStr ''text''] []), (''cost'', JObj [(''input'', JNum 0), (''output'', JNum 0)]),
        (''contextWindow'', JNum 32768), (''maxTokens'', JNum 8192)]] [])])) \<and>
   JNum 32768 \<noteq> JNum 0 \<and> JNum 8192 \<noteq> JNum (min 8192 (0 div 4))"
  by (simp add: addModel_def andThen_def newModelEntry_def contextWindow_def envZero_def)

text \<open>
  Claim C8, amended. Whenever \<open>addModel\<close> appends an entry, the entry has
  \<open>maxTokens = min(8192, floor(contextWindow / 4))\<close>, where \<open>contextWindow\<close> is the parsed
  environment value when that is a number other than zero and 32768 otherwise; when the
  value does not parse, \<open>maxTokens\<close> is 8192.
\<close>

theorem new_entry_token_limit:
  assumes "addModel e ol = Inr ol'" and "ol' \<noteq> ol"
  shows "\<exists>es entry cw.
     getProp ol' ''models'' = Inr (Some (JArr (es @ [entry]) [])) \<and>
     cw = (case contextWindowEnv e of None \<Rightarrow> 32768 | Some n \<Rightarrow> if n = 0 then 32768 else n) \<and>
     getProp (Some entry) ''contextWindow'' = Inr (Some (JNum cw)) \<and>
     getProp (Some entry) ''maxTokens'' = Inr (Some (JNum (min 8192 (cw div 4)))) \<and>
     (contextWindowEnv e = None \<longrightarrow> getProp (Some entry) ''maxTokens'' = Inr (Some (JNum 8192)))"
proof -
  let ?es = "elems (map_of (propsOf ol) ''models'')"
  from addModel_Inr[OF assms(1)] assms(2)
  have r: "ol' = withProps ol (AList.update ''models'' (JArr (?es @ [newModelEntry e]) []) (propsOf ol))"
    by (auto split: if_splits)
  with assms(2) have c: "isContainer ol" by (cases ol rule: truthy.cases) auto
  have "getProp ol' ''models'' = Inr (Some (JArr (?es @ [newModelEntry e]) []))"
    using r c by (simp add: getProp_container update_conv')
  moreover have "contextWindow e = (case contextWindowEnv e of None \<Rightarrow> 32768 | Some n \<Rightarrow> if n = 0 then 32768 else n)"
    by (simp add: contextWindow_def split: option.splits)
  ultimately show ?thesis
    by (intro exI[of _ ?es] exI[of _ "newModelEntry e"] exI[of _ "contextWindow e"])
      (auto simp: newModelEntry_def contextWindow_def)
qed

theorem new_entry_token_limit_witness:
  "\<exists>es entry. getProp (Some (JObj [(''models'', JArr [JObj [(''id'', JStr ''modelB''),
        (''name'', JStr ''Ollama - modelB''), (''reasoning'', JBool False),
        (''input'', JArr [JStr ''text''] []), (''cost'', JObj [(''input'', JNum 0), (''output'', JNum 0)]),
        (''contextWindow'', JNum 16384), (''maxTokens'', JNum 4096)]] [])])) ''models''
       = Inr (Some (JArr (es @ [entry]) [])) \<and>
     getProp (Some entry) ''contextWindow'' = Inr (Some (JNum 16384)) \<and>
     getProp (Some entry) ''maxTokens'' = Inr (Some (JNum 4096))"
proof -
  let ?r = "Some (JObj [(''models'', JArr [JObj [(''id'', JStr ''modelB''),
        (''name'', JStr ''Ollama - modelB''), (''reasoning'', JBool False),
        (''input'', JArr [JStr ''text''] []), (''cost'', JObj [(''input'', JNum 0), (''output'', JNum 0)]),
        (''contextWindow'', JNum 16384), (''maxTokens'', JNum 4096)]] [])])"
  have a: "addModel envB (Some (JObj [])) = Inr ?r"
    by (simp add: addModel_def andThen_def newModelEntry_def contextWindow_def envB_def)
  have b: "?r \<noteq> Some (JObj [])" by simp
  have c: "contextWindowEnv envB = Some 16384" by (simp add: envB_def)
  from new_entry_token_limit[OF a b] show ?thesis
    unfolding c by auto
qed


section \<open>The whole run: claims\<close>

text \<open>
  Claim C3, as stated, speaks of every persisted document. A number too large for a
  double is read as \<^verbatim>\<open>Infinity\<close> and written as \<^verbatim>\<open>null\<close>: on
  \<^verbatim>\<open>{"models": {"providers": 1e999}}\<close>, with the URL and the key set, the first run finds a
  truthy \<^verbatim>\<open>providers\<close>, its assignment of the provider entry to a number is dropped, and
  it writes \<^verbatim>\<open>null\<close> there; the second run replaces the \<^verbatim>\<open>null\<close> by a mapping and
  stores the provider entry.
\<close>

theorem infinite_number_counterexample:
  "run envNoModel (run envNoModel (Some infiniteDoc)) \<noteq> run envNoModel (Some infiniteDoc)"
  by code_simp

text \<open>
  Claim C3, amended. Running the script twice with the same environment leaves, after the
  second run, the document that the first run left, from a missing or unparsable file and
  from every document that is written back as it was read (\<open>clean\<close>: a parsed document
  with no infinite number, \<open>clean_iff\<close>); a run that throws writes nothing.
\<close>

theorem run_idempotent:
  assumes "clean file"
  shows "run e (run e file) = run e file"
proof (cases "main e (load file)")
  case (Inl err)
  then show ?thesis by (simp add: run_def)
next
  case (Inr r)
  show ?thesis
  proof (cases r)
    case None
    with Inr show ?thesis by (simp add: run_def)
  next
    case (Some c)
    have cl: "stringify (load file) = load file"
      using assms by (cases "file") (simp_all add: clean_def stringifyProps_def)
    have r1: "run e file = Some (stringify c)" using Inr Some by (simp add: run_def)
    show ?thesis
    proof (cases "main e (stringify c)")
      case (Inl err)
      then have "run e (Some (stringify c)) = Some (stringify c)" by (simp add: run_def)
      then show ?thesis by (simp add: r1)
    next
      case r2: (Inr r')
      show ?thesis
      proof (cases r')
        case None
        with r2 have "run e (Some (stringify c)) = Some (stringify c)" by (simp add: run_def)
        then show ?thesis by (simp add: r1)
      next
        case s2: (Some c2)
        have "stringify c2 = stringify c"
          using main_idem[OF Inr[unfolded Some] cl r2[unfolded s2]] .
        with r2 s2 have "run e (Some (stringify c)) = Some (stringify c)" by (simp add: run_def)
        then show ?thesis by (simp add: r1)
      qed
    qed
  qed
qed

theorem run_idempotent_witness:
  "clean (Some staleDoc) \<and> run envFull (run envFull (Some staleDoc)) = run envFull (Some staleDoc)"
  using run_idempotent[of "Some staleDoc" envFull]
  by (simp add: clean_def staleDoc_def stringifyProps_def)

end
